theory Spec2Isabelle
  imports Main "HOL-Library.Sublist" "HOL-Library.AList"
begin

section \<open>Strings as Python handles them\<close>

text \<open>
  Python \<open>str\<close> values are modelled as \<open>string\<close>, one \<open>char\<close> per code point, restricted
  to code points below 256. \<open>x in s\<close> on strings is \<^const>\<open>sublist\<close>, \<open>s.startswith(p)\<close>
  is \<^const>\<open>prefix\<close> with the arguments swapped.
\<close>

definition is_space :: "char \<Rightarrow> bool" where
  \<comment> \<open>\<open>str.isspace\<close> on the code points below 256\<close>
  "is_space c = (of_char c \<in> {9, 10, 11, 12, 13, 28, 29, 30, 31, 32, 133, 160 :: nat})"

definition strip :: "string \<Rightarrow> string" where
  \<comment> \<open>\<open>s.strip()\<close>\<close>
  "strip s = rev (dropWhile is_space (rev (dropWhile is_space s)))"

fun split_char :: "char \<Rightarrow> string \<Rightarrow> string list" where
  \<comment> \<open>\<open>s.split(d)\<close> for a one-character separator: never empty, \<open>''''.split(d) = ['''']\<close>\<close>
  "split_char d [] = [[]]"
| "split_char d (c # cs) =
     (if c = d then [] # split_char d cs
      else (case split_char d cs of [] \<Rightarrow> [[c]] | w # ws \<Rightarrow> (c # w) # ws))"

function split_str :: "string \<Rightarrow> string \<Rightarrow> string \<Rightarrow> string list" where
  \<comment> \<open>\<open>s.split(sep)\<close> for a non-empty separator, scanning left to right; the second
      argument is the piece collected so far, reversed\<close>
  "split_str sep cur s =
     (if s = [] then [rev cur]
      else if sep \<noteq> [] \<and> prefix sep s then rev cur # split_str sep [] (drop (length sep) s)
      else split_str sep (hd s # cur) (tl s))"
  by pat_completeness auto
termination
  by (relation "measure (\<lambda>(sep, cur, s). length s)") (auto simp: neq_Nil_conv)

declare split_str.simps [simp del]

definition split_once :: "char \<Rightarrow> string \<Rightarrow> string list" where
  \<comment> \<open>\<open>s.split(d, 1)\<close>: at most one split, at the first occurrence\<close>
  "split_once d s =
     (if d \<in> set s then [takeWhile (\<lambda>c. c \<noteq> d) s, tl (dropWhile (\<lambda>c. c \<noteq> d) s)] else [s])"

fun join_str :: "string \<Rightarrow> string list \<Rightarrow> string" where
  \<comment> \<open>\<open>sep.join(xs)\<close>\<close>
  "join_str sep [] = []"
| "join_str sep [x] = x"
| "join_str sep (x # y # ys) = x @ sep @ join_str sep (y # ys)"

section \<open>Paths and the file system\<close>

text \<open>
  A \<open>pathlib\<close> path is its \<open>parts\<close> tuple: an absolute path starts with the part \<open>''/''\<close>.
  \<open>pathlib\<close> drops empty and \<open>''.''\<close> segments when it parses a string and keeps every
  \<open>''..''\<close> segment; \<open>absolute()\<close> prepends the working directory to a relative path and
  changes nothing else.
\<close>

type_synonym path = "string list"

definition is_absolute :: "path \<Rightarrow> bool" where
  "is_absolute p = (p \<noteq> [] \<and> hd p = ''/'')"

definition Path :: "string \<Rightarrow> path" where
  \<comment> \<open>\<open>Path(s)\<close>\<close>
  "Path s = (if prefix ''/'' s then [''/''] else [])
            @ filter (\<lambda>seg. seg \<noteq> [] \<and> seg \<noteq> ''.'') (split_char CHR ''/'' s)"

definition path_join :: "path \<Rightarrow> string \<Rightarrow> path" where
  \<comment> \<open>\<open>p / s\<close>: an absolute right operand replaces the left one\<close>
  "path_join p s = (if prefix ''/'' s then Path s else p @ Path s)"

definition is_relative_to :: "path \<Rightarrow> path \<Rightarrow> bool" where
  \<comment> \<open>\<open>p.relative_to(other)\<close> does not raise \<open>ValueError\<close>: a comparison of parts\<close>
  "is_relative_to p other = prefix other p"

definition path_name :: "path \<Rightarrow> string" where
  \<comment> \<open>\<open>p.name\<close>\<close>
  "path_name p = (if p = [] \<or> p = [''/''] then [] else last p)"

definition path_suffix :: "path \<Rightarrow> string" where
  \<comment> \<open>\<open>p.suffix\<close>: with \<open>i = name.rfind('.')\<close>, \<open>name[i:]\<close> if \<open>0 < i < len(name) - 1\<close>,
      else the empty string\<close>
  "path_suffix p =
     (let name = path_name p; r = takeWhile (\<lambda>c. c \<noteq> CHR ''.'') (rev name)
      in if CHR ''.'' \<in> set name \<and> r \<noteq> [] \<and> Suc (length r) < length name
         then CHR ''.'' # rev r else [])"

definition path_str :: "path \<Rightarrow> string" where
  \<comment> \<open>\<open>str(p)\<close>\<close>
  "path_str p =
     (if is_absolute p then ''/'' @ join_str ''/'' (tl p)
      else if p = [] then ''.'' else join_str ''/'' p)"

text \<open>
  The file system maps the canonical absolute path of every entry (no \<open>''..''\<close> part) to the
  entry: a regular file with its content, or a directory with the size \<open>stat\<close> reports for
  it. The root directory is the entry at \<open>[''/'']\<close>. Symbolic links, permissions and
  encodings are not modelled: a file's size is the length of its content.
\<close>

datatype entry = File string | Dir nat

record filesystem =
  entries :: "(path \<times> entry) list"
  cwd :: path  \<comment> \<open>the working directory of the process\<close>

definition absolute :: "filesystem \<Rightarrow> path \<Rightarrow> path" where
  \<comment> \<open>\<open>p.absolute()\<close>\<close>
  "absolute fs p = (if is_absolute p then p else cwd fs @ p)"

definition parent :: "path \<Rightarrow> path" where
  "parent c = (if length c \<le> 1 then c else butlast c)"

fun walk :: "(path \<times> entry) list \<Rightarrow> path \<Rightarrow> string list \<Rightarrow> path option" where
  \<comment> \<open>the kernel's path walk from directory \<open>cur\<close>: every step starts in a directory,
      \<open>''..''\<close> steps to the parent\<close>
  "walk es cur [] = Some cur"
| "walk es cur (seg # segs) =
     (case map_of es cur of
        Some (Dir n) \<Rightarrow> walk es (if seg = ''..'' then parent cur else cur @ [seg]) segs
      | _ \<Rightarrow> None)"

definition realpath :: "filesystem \<Rightarrow> path \<Rightarrow> path option" where
  \<comment> \<open>the canonical path a path leads to, when the walk succeeds\<close>
  "realpath fs p =
     (let a = absolute fs p in if is_absolute a then walk (entries fs) [''/''] (tl a) else None)"

definition os_stat :: "filesystem \<Rightarrow> path \<Rightarrow> entry option" where
  \<comment> \<open>\<open>os.stat(p)\<close>: \<open>None\<close> where it raises \<open>FileNotFoundError\<close> or \<open>NotADirectoryError\<close>\<close>
  "os_stat fs p = (case realpath fs p of None \<Rightarrow> None | Some c \<Rightarrow> map_of (entries fs) c)"

definition path_exists :: "filesystem \<Rightarrow> path \<Rightarrow> bool" where
  \<comment> \<open>\<open>p.exists()\<close>\<close>
  "path_exists fs p = (os_stat fs p \<noteq> None)"

definition st_size :: "entry \<Rightarrow> nat" where
  "st_size e = (case e of File content \<Rightarrow> length content | Dir n \<Rightarrow> n)"

definition os_error :: "string \<Rightarrow> path \<Rightarrow> string" where
  \<comment> \<open>\<open>str(e)\<close> of an \<open>OSError\<close> on path \<open>p\<close>\<close>
  "os_error what p = what @ '': '' @ [CHR 0x27] @ path_str p @ [CHR 0x27]"

definition read_text :: "filesystem \<Rightarrow> path \<Rightarrow> string + string" where
  \<comment> \<open>\<open>p.read_text()\<close>; \<open>Inl\<close> is \<open>str(e)\<close> of the \<open>OSError\<close> raised\<close>
  "read_text fs p =
     (case os_stat fs p of
        None \<Rightarrow> Inl (os_error ''[Errno 2] No such file or directory'' p)
      | Some (Dir n) \<Rightarrow> Inl (os_error ''[Errno 21] Is a directory'' p)
      | Some (File content) \<Rightarrow> Inr content)"

definition write_text :: "filesystem \<Rightarrow> path \<Rightarrow> string \<Rightarrow> string + filesystem" where
  \<comment> \<open>\<open>p.write_text(content)\<close>: replaces a regular file, creates a missing one in an
      existing directory, raises on a directory\<close>
  "write_text fs p content =
     (case realpath fs p of
        None \<Rightarrow> Inl (os_error ''[Errno 2] No such file or directory'' p)
      | Some c \<Rightarrow>
          (case map_of (entries fs) c of
             Some (Dir n) \<Rightarrow> Inl (os_error ''[Errno 21] Is a directory'' p)
           | _ \<Rightarrow> Inr (fs\<lparr>entries := AList.update c (File content) (entries fs)\<rparr>)))"

section \<open>Configuration (config.py)\<close>

datatype json_item = JStr string | JOther

record config =
  TARGET_PROJECT_DIR :: path  \<comment> \<open>absolute, from the environment or the default\<close>
  json_loads :: "string \<Rightarrow> json_item list option"
    \<comment> \<open>\<open>json.loads\<close> on a bracketed text: the array's items, \<open>None\<close> where it raises\<close>

definition ALLOWED_EXTENSIONS :: "string list" where
  "ALLOWED_EXTENSIONS =
     [''.md'', ''.txt'', ''.json'', ''.yaml'', ''.yml'', ''.py'', ''.config'', ''.html'',
      ''.css'', ''.js'', ''.jsx'', ''.ts'', ''.tsx'']"

definition MAX_FILE_SIZE :: nat where
  "MAX_FILE_SIZE = 100 * 1024"

definition validate_target_path :: "config \<Rightarrow> filesystem \<Rightarrow> path \<Rightarrow> bool" where
  "validate_target_path cfg fs file_path =
     (let abs_path = absolute fs file_path
      in if \<not> is_relative_to abs_path (TARGET_PROJECT_DIR cfg) then False
         else if \<not> path_exists fs abs_path then False
         else if path_suffix abs_path \<notin> set ALLOWED_EXTENSIONS then False
         else (case os_stat fs abs_path of
                 None \<Rightarrow> False
               | Some e \<Rightarrow> if st_size e > MAX_FILE_SIZE then False else True))"

text \<open>
  What the guard is specified to decide: the resolved form of the path is a strict
  descendant of the target root, the path exists, its extension is whitelisted and its size
  is within the ceiling.
\<close>

definition strict_descendant :: "path \<Rightarrow> path \<Rightarrow> bool" where
  "strict_descendant p root = strict_prefix root p"

definition spec_validate :: "config \<Rightarrow> filesystem \<Rightarrow> path \<Rightarrow> bool" where
  "spec_validate cfg fs file_path =
     (case realpath fs file_path of
        None \<Rightarrow> False
      | Some resolved \<Rightarrow>
          strict_descendant resolved (TARGET_PROJECT_DIR cfg) \<and>
          (case map_of (entries fs) resolved of
             None \<Rightarrow> False
           | Some e \<Rightarrow> path_suffix resolved \<in> set ALLOWED_EXTENSIONS \<and> st_size e \<le> MAX_FILE_SIZE))"

section \<open>Reading files (agent.py)\<close>

record file_data =
  fd_path :: string
  fd_content :: string
  fd_size :: nat
  fd_extension :: string

definition read_file :: "config \<Rightarrow> filesystem \<Rightarrow> string \<Rightarrow> string + file_data" where
  \<comment> \<open>\<open>Inl msg\<close> is the dictionary \<open>{"error": msg}\<close>\<close>
  "read_file cfg fs file_path =
     (let target_file = path_join (TARGET_PROJECT_DIR cfg) file_path
      in if \<not> validate_target_path cfg fs target_file
         then Inl ''File access denied - safety check failed''
         else if \<not> path_exists fs target_file
         then Inl (''File not found: '' @ file_path)
         else (case read_text fs target_file of
                 Inl e \<Rightarrow> Inl e
               | Inr content \<Rightarrow>
                   Inr \<lparr>fd_path = file_path, fd_content = content, fd_size = length content,
                        fd_extension = path_suffix target_file\<rparr>))"

section \<open>The store (database.py)\<close>

text \<open>
  Each table is a map from the row id to the row, with the next id of its
  \<open>AUTOINCREMENT\<close> key; no operation deletes a row. Timestamps are readings of the clock
  \<open>now\<close>, which no operation advances. The generation service is an oracle: its
  \<open>n\<close>-th call returns \<open>replies n\<close>, whatever it is sent, so the prompts, the
  conversation history and the blueprint fetched from the target project, which only feed
  the service, are left out. \<open>writes\<close> is the trace of the \<open>write_text\<close> calls that
  succeeded.
\<close>

datatype change_status = Pending | Accepted | Rejected

definition status_str :: "change_status \<Rightarrow> string" where
  "status_str st = (case st of Pending \<Rightarrow> ''pending'' | Accepted \<Rightarrow> ''accepted''
                    | Rejected \<Rightarrow> ''rejected'')"

record proposed_change =
  pc_ticket_id :: "nat option"
  file_path :: string
  original_content :: string
  proposed_content :: string
  change_description :: string
  status :: change_status
  created_at :: nat
  resolved_at :: "nat option"

datatype ticket_state = Open | In_progress | Resolved | Closed

record ticket =
  title :: string
  description :: "string option"
  category :: string
  ticket_status :: ticket_state
  priority :: string
  project_id :: "nat option"
  ai_suggestion :: "string option"
  ai_suggestion_status :: "change_status option"
  ai_files_analyzed :: "string list option"
  updated_at :: nat

record project =
  project_title :: "string option"
  frontend_url :: "string option"
  backend_url :: "string option"

record change_record =
  ch_ticket_id :: "nat option"
  files_affected :: "string list"
  change_type :: string
  change_summary :: string
  ai_response :: string

record context_row =
  context_type :: string
  context_title :: string
  context_content :: string
  context_tags :: "string list"

datatype gen_result =
  GenOk string  \<comment> \<open>\<open>response.content[0].text\<close>\<close>
| GenFail string  \<comment> \<open>the call raised; \<open>str(e)\<close>\<close>

record world =
  disk :: filesystem
  writes :: "(path \<times> string) list"
  proposed_changes :: "nat \<rightharpoonup> proposed_change"
  next_change_id :: nat
  tickets :: "nat \<rightharpoonup> ticket"
  projects :: "nat \<rightharpoonup> project"
  changes_history :: "change_record list"
  ai_context :: "context_row list"
  now :: nat
  replies :: "nat \<Rightarrow> gen_result"
  calls :: nat

definition create_proposed_change ::
  "world \<Rightarrow> string \<Rightarrow> string \<Rightarrow> string \<Rightarrow> string \<Rightarrow> nat option \<Rightarrow> nat \<times> world" where
  "create_proposed_change s fpath original proposed descr tid =
     (let change_id = next_change_id s;
          row = \<lparr>pc_ticket_id = tid, file_path = fpath, original_content = original,
                 proposed_content = proposed, change_description = descr, status = Pending,
                 created_at = now s, resolved_at = None\<rparr>
      in (change_id, s\<lparr>proposed_changes := (proposed_changes s)(change_id \<mapsto> row),
                        next_change_id := Suc change_id\<rparr>))"

definition get_proposed_change :: "world \<Rightarrow> nat \<Rightarrow> proposed_change option" where
  "get_proposed_change s change_id = proposed_changes s change_id"

definition get_proposed_changes_for_ticket :: "world \<Rightarrow> nat \<Rightarrow> (nat \<times> proposed_change) list" where
  \<comment> \<open>\<open>ORDER BY created_at DESC\<close>; rows of one timestamp come in the order of their ids, as
      SQLite's sorter returns them\<close>
  "get_proposed_changes_for_ticket s tid =
     sort_key (\<lambda>(i, r). - int (created_at r))
       (concat (map (\<lambda>i. case proposed_changes s i of
                            None \<Rightarrow> []
                          | Some r \<Rightarrow> if pc_ticket_id r = Some tid then [(i, r)] else [])
                    [0..<next_change_id s]))"

definition update_proposed_change_status :: "world \<Rightarrow> nat \<Rightarrow> change_status \<Rightarrow> world" where
  "update_proposed_change_status s change_id st =
     (case proposed_changes s change_id of
        None \<Rightarrow> s
      | Some r \<Rightarrow> s\<lparr>proposed_changes :=
                      (proposed_changes s)(change_id \<mapsto> r\<lparr>status := st, resolved_at := Some (now s)\<rparr>)\<rparr>)"

definition get_ticket_by_id :: "world \<Rightarrow> nat \<Rightarrow> ticket option" where
  "get_ticket_by_id s tid = tickets s tid"

definition get_project_by_id :: "world \<Rightarrow> nat \<Rightarrow> project option" where
  "get_project_by_id s pid = projects s pid"

definition update_ticket_ai_suggestion :: "world \<Rightarrow> nat \<Rightarrow> string \<Rightarrow> string list \<Rightarrow> world" where
  "update_ticket_ai_suggestion s tid suggestion files =
     (case tickets s tid of
        None \<Rightarrow> s
      | Some t \<Rightarrow> s\<lparr>tickets := (tickets s)(tid \<mapsto>
                      t\<lparr>ai_suggestion := Some suggestion, ai_files_analyzed := Some files,
                        ai_suggestion_status := Some Pending, updated_at := now s\<rparr>)\<rparr>)"

definition update_ticket_ai_status :: "world \<Rightarrow> nat \<Rightarrow> change_status \<Rightarrow> world" where
  "update_ticket_ai_status s tid st =
     (case tickets s tid of
        None \<Rightarrow> s
      | Some t \<Rightarrow>
          if st = Accepted
          then s\<lparr>tickets := (tickets s)(tid \<mapsto>
                    t\<lparr>ai_suggestion_status := Some st, ticket_status := Resolved,
                      updated_at := now s\<rparr>)\<rparr>
          else s\<lparr>tickets := (tickets s)(tid \<mapsto>
                    t\<lparr>ai_suggestion_status := Some st, updated_at := now s\<rparr>)\<rparr>)"

definition record_change ::
  "world \<Rightarrow> string list \<Rightarrow> string \<Rightarrow> string \<Rightarrow> string \<Rightarrow> nat option \<Rightarrow> world" where
  "record_change s files ctype summary response tid =
     s\<lparr>changes_history := changes_history s @
          [\<lparr>ch_ticket_id = tid, files_affected = files, change_type = ctype,
            change_summary = summary, ai_response = response\<rparr>]\<rparr>"

definition save_ai_context :: "world \<Rightarrow> string \<Rightarrow> string \<Rightarrow> string \<Rightarrow> string list \<Rightarrow> world" where
  "save_ai_context s content ctype ctitle tags =
     s\<lparr>ai_context := ai_context s @
          [\<lparr>context_type = ctype, context_title = ctitle, context_content = content,
            context_tags = tags\<rparr>]\<rparr>"

definition messages_create :: "world \<Rightarrow> gen_result \<times> world" where
  \<comment> \<open>\<open>self.client.messages.create(...).content[0].text\<close>\<close>
  "messages_create s = (replies s (calls s), s\<lparr>calls := Suc (calls s)\<rparr>)"

section \<open>Proposed changes (agent.py)\<close>

definition propose_file_change ::
  "config \<Rightarrow> world \<Rightarrow> string \<Rightarrow> string \<Rightarrow> nat option \<Rightarrow> (string + nat) \<times> world" where
  \<comment> \<open>\<open>Inr change_id\<close> is the dictionary with \<open>"status": "proposed"\<close>\<close>
  "propose_file_change cfg s fpath instruction tid =
     (case read_file cfg (disk s) fpath of
        Inl e \<Rightarrow> (Inl e, s)
      | Inr file \<Rightarrow>
          (case messages_create s of
             (GenFail e, s1) \<Rightarrow> (Inl e, s1)
           | (GenOk proposed, s1) \<Rightarrow>
               (let (change_id, s2) =
                      create_proposed_change s1 fpath (fd_content file) proposed instruction tid
                in (Inr change_id, s2))))"

definition apply_proposed_change :: "config \<Rightarrow> world \<Rightarrow> nat \<Rightarrow> (string + nat \<times> string) \<times> world" where
  \<comment> \<open>\<open>Inr (change_id, file_path)\<close> is the dictionary with \<open>"status": "applied"\<close>\<close>
  "apply_proposed_change cfg s change_id =
     (case get_proposed_change s change_id of
        None \<Rightarrow> (Inl ''Proposed change not found'', s)
      | Some change \<Rightarrow>
          if status change \<noteq> Pending
          then (Inl (''Change already '' @ status_str (status change)), s)
          else
            (let target_file = path_join (TARGET_PROJECT_DIR cfg) (file_path change)
             in if \<not> validate_target_path cfg (disk s) target_file
                then (Inl ''Safety check failed on write'', s)
                else
                  (case write_text (disk s) target_file (proposed_content change) of
                     Inl e \<Rightarrow> (Inl e, s)
                   | Inr fs' \<Rightarrow>
                       (let s1 = s\<lparr>disk := fs',
                                   writes := writes s @ [(target_file, proposed_content change)]\<rparr>;
                            s2 = update_proposed_change_status s1 change_id Accepted;
                            s3 = record_change s2 [file_path change] ''modify''
                                   (take 200 (change_description change))
                                   (take 500 (proposed_content change)) (pc_ticket_id change)
                        in (Inr (change_id, file_path change), s3)))))"

definition reject_proposed_change :: "world \<Rightarrow> nat \<Rightarrow> (string + nat) \<times> world" where
  \<comment> \<open>\<open>Inr change_id\<close> is the dictionary with \<open>"status": "rejected"\<close>\<close>
  "reject_proposed_change s change_id =
     (case get_proposed_change s change_id of
        None \<Rightarrow> (Inl ''Proposed change not found'', s)
      | Some change \<Rightarrow>
          if status change \<noteq> Pending
          then (Inl (''Change already '' @ status_str (status change)), s)
          else (Inr change_id, update_proposed_change_status s change_id Rejected))"

section \<open>Two-step task processing (agent.py)\<close>

definition SKIP_NAMES :: "string list" where
  "SKIP_NAMES = [''node_modules'', ''__pycache__'', ''venv'', ''.git'']"

definition get_all_files_recursive :: "config \<Rightarrow> filesystem \<Rightarrow> (string \<times> string \<times> nat) list" where
  \<comment> \<open>\<open>(path, name, size)\<close> of every listed file; \<open>rglob\<close> reaches an entry through
      directories only\<close>
  "get_all_files_recursive cfg fs =
     (let target_dir = path_join (TARGET_PROJECT_DIR cfg) ''.''
      in if \<not> path_exists fs target_dir then []
         else concat (map (\<lambda>item.
                let rel_path = join_str ''/'' (drop (length target_dir) item)
                in (case map_of (entries fs) item of
                      Some (File content) \<Rightarrow>
                        if strict_prefix target_dir item \<and> realpath fs item = Some item \<and>
                           path_suffix item \<in> set ALLOWED_EXTENSIONS \<and>
                           \<not> list_ex (\<lambda>part. prefix ''.'' part) (split_char CHR ''/'' rel_path) \<and>
                           \<not> list_ex (\<lambda>skip. sublist skip rel_path) SKIP_NAMES
                        then [(rel_path, path_name item, length content)] else []
                    | _ \<Rightarrow> []))
              (remdups (map fst (entries fs)))))"

definition first_bracketed :: "string \<Rightarrow> string option" where
  \<comment> \<open>\<open>re.search(r'\[.*?\]', s, re.DOTALL)\<close>: from the first \<open>[\<close> to the next \<open>]\<close>\<close>
  "first_bracketed s =
     (let t = dropWhile (\<lambda>c. c \<noteq> CHR ''['') s
      in if t = [] \<or> CHR '']'' \<notin> set (tl t) then None
         else Some (CHR ''['' # takeWhile (\<lambda>c. c \<noteq> CHR '']'') (tl t) @ '']''))"

definition identify_relevant_files :: "config \<Rightarrow> world \<Rightarrow> json_item list \<times> world" where
  \<comment> \<open>every exception inside is caught and gives the empty list\<close>
  "identify_relevant_files cfg s =
     (if get_all_files_recursive cfg (disk s) = [] then ([], s)
      else (case messages_create s of
              (GenFail e, s1) \<Rightarrow> ([], s1)
            | (GenOk text, s1) \<Rightarrow>
                (case first_bracketed (strip text) of
                   None \<Rightarrow> ([], s1)
                 | Some m \<Rightarrow>
                     (case json_loads cfg m of None \<Rightarrow> ([], s1) | Some items \<Rightarrow> (items, s1)))))"

fun read_relevant ::
  "config \<Rightarrow> filesystem \<Rightarrow> json_item list \<Rightarrow> (string \<times> string) list \<Rightarrow> nat
     \<Rightarrow> (string \<times> string) list \<times> nat" where
  \<comment> \<open>the loop filling the dictionary \<open>file_contents\<close> and \<open>total_size\<close>; an item that is
      not a string makes \<open>read_file\<close> return an error\<close>
  "read_relevant cfg fs [] file_contents total_size = (file_contents, total_size)"
| "read_relevant cfg fs (JOther # items) file_contents total_size =
     read_relevant cfg fs items file_contents total_size"
| "read_relevant cfg fs (JStr p # items) file_contents total_size =
     (case read_file cfg fs p of
        Inl e \<Rightarrow> read_relevant cfg fs items file_contents total_size
      | Inr file \<Rightarrow>
          read_relevant cfg fs items (AList.update p (fd_content file) file_contents)
            (total_size + length (fd_content file)))"

record task_result =
  files_analyzed :: "string list"
  total_files :: nat
  total_chars :: nat
  response :: string

definition process_task_two_step :: "config \<Rightarrow> world \<Rightarrow> string \<Rightarrow> (string + task_result) \<times> world" where
  "process_task_two_step cfg s task =
     (case identify_relevant_files cfg s of
        (relevant_files, s1) \<Rightarrow>
          if relevant_files = [] then (Inl ''No relevant files found for this task'', s1)
          else
            (case read_relevant cfg (disk s1) relevant_files [] 0 of
               (file_contents, total_size) \<Rightarrow>
                 if file_contents = [] then (Inl ''Could not read any of the relevant files'', s1)
                 else
                   (case messages_create s1 of
                      (GenFail e, s2) \<Rightarrow> (Inl e, s2)
                    | (GenOk assistant_response, s2) \<Rightarrow>
                        (let s3 = record_change s2 (map fst file_contents) ''analyze''
                                    (take 200 task) (take 1000 assistant_response) None;
                             s4 = save_ai_context s3 assistant_response ''finding''
                                    (''Analysis: '' @ take 50 task @ ''...'')
                                    [''auto-generated'', ''task-analysis'']
                         in (Inr \<lparr>files_analyzed = map fst file_contents,
                                  total_files = length file_contents,
                                  total_chars = total_size,
                                  response = assistant_response\<rparr>, s4)))))"

section \<open>Ticket resolution (routes.py)\<close>

definition FILES_TO_MODIFY :: string where
  "FILES_TO_MODIFY = ''FILES_TO_MODIFY:''"

definition directive_of_line :: "string \<Rightarrow> string \<Rightarrow> (string \<times> string) option" where
  \<comment> \<open>one line of the block: the path and the instruction, \<open>None\<close> for a line that is skipped\<close>
  "directive_of_line ticket_title raw_line =
     (let line = strip raw_line
      in if prefix ''- '' line \<and> CHR '':'' \<in> set line
         then (case split_once CHR '':'' (drop 2 line) of
                 [] \<Rightarrow> None
               | [p] \<Rightarrow> Some (strip p, ''Apply fix for: '' @ ticket_title)
               | p # q # rest \<Rightarrow> Some (strip p, strip q))
         else None)"

definition extract_file_directives :: "string \<Rightarrow> string \<Rightarrow> (string \<times> string) list" where
  \<comment> \<open>the parsing of the \<open>FILES_TO_MODIFY:\<close> section in \<open>api_ticket_ai_resolve\<close>\<close>
  "extract_file_directives ticket_title ai_resp =
     (if sublist FILES_TO_MODIFY ai_resp
      then List.map_filter (directive_of_line ticket_title)
             (split_char CHR 0x0A (strip (last (split_str FILES_TO_MODIFY [] ai_resp))))
      else [])"

abbreviation (input) nonempty_lines :: "string list \<Rightarrow> string list" where
  "nonempty_lines ls \<equiv> filter (\<lambda>l. l \<noteq> []) (map strip ls)"

fun propose_directives ::
  "config \<Rightarrow> world \<Rightarrow> string \<Rightarrow> nat \<Rightarrow> string list \<Rightarrow> (string \<times> string) list
     \<Rightarrow> (string \<times> nat) list \<times> world" where
  \<comment> \<open>the body of the loop over the lines, for the lines that gave a directive\<close>
  "propose_directives cfg s ticket_title tid files [] = ([], s)"
| "propose_directives cfg s ticket_title tid files ((fpath, instruction) # ds) =
     (if fpath \<in> set files
      then (case propose_file_change cfg s fpath (ticket_title @ '': '' @ instruction) (Some tid) of
              (Inr change_id, s1) \<Rightarrow>
                (case propose_directives cfg s1 ticket_title tid files ds of
                   (proposed, s2) \<Rightarrow> ((fpath, change_id) # proposed, s2))
            | (Inl e, s1) \<Rightarrow> propose_directives cfg s1 ticket_title tid files ds)
      else propose_directives cfg s ticket_title tid files ds)"

definition opt_str :: "string option \<Rightarrow> string" where
  \<comment> \<open>how an f-string prints a nullable column\<close>
  "opt_str x = (case x of None \<Rightarrow> ''None'' | Some v \<Rightarrow> v)"

definition ticket_task :: "world \<Rightarrow> ticket \<Rightarrow> string" where
  "ticket_task s t =
     (let nl = [CHR 0x0A];
          project_info =
            (case project_id t of
               None \<Rightarrow> []
             | Some pid \<Rightarrow>
                 if pid = 0 then []
                 else (case get_project_by_id s pid of
                         None \<Rightarrow> []
                       | Some p \<Rightarrow>
                           nl @ ''Project: '' @ opt_str (project_title p) @ nl
                           @ ''Frontend URL: '' @ opt_str (frontend_url p) @ nl
                           @ ''Backend URL: '' @ opt_str (backend_url p) @ nl))
      in ''Analyze and resolve this ticket:'' @ nl @ project_info @ nl
         @ ''Title: '' @ title t @ nl
         @ ''Category: '' @ category t @ nl
         @ ''Priority: '' @ priority t @ nl
         @ ''Description: ''
         @ (case description t of
              None \<Rightarrow> ''No description provided''
            | Some d \<Rightarrow> if d = [] then ''No description provided'' else d) @ nl @ nl
         @ ''Please:'' @ nl
         @ ''1. Identify the relevant files in the codebase'' @ nl
         @ ''2. Analyze the issue (use the API blueprint info if relevant)'' @ nl
         @ ''3. Provide a detailed resolution or implementation plan'' @ nl
         @ ''4. If it'' @ [CHR 0x27] @ ''s a bug, explain the root cause and fix'' @ nl
         @ ''5. If it'' @ [CHR 0x27] @ ''s a feature/task, provide implementation steps'' @ nl
         @ ''6. Reference specific API endpoints if the issue involves the API'' @ nl
         @ ''7. IMPORTANT: At the end, list the files that need to be modified in this format:'' @ nl
         @ ''   FILES_TO_MODIFY:'' @ nl
         @ ''   - path/to/file1.py: description of changes needed'' @ nl
         @ ''   - path/to/file2.js: description of changes needed'')"

definition store_and_propose ::
  "config \<Rightarrow> world \<Rightarrow> nat \<Rightarrow> ticket \<Rightarrow> string \<Rightarrow> string list
     \<Rightarrow> (string \<times> string list \<times> (string \<times> nat) list) \<times> world" where
  \<comment> \<open>\<open>api_ticket_ai_resolve\<close> from the point where the suggestion is stored\<close>
  "store_and_propose cfg s tid t ai_resp files =
     (let s2 = update_ticket_ai_suggestion s tid ai_resp files
      in (case propose_directives cfg s2 (title t) tid files
                  (extract_file_directives (title t) ai_resp) of
            (proposed, s3) \<Rightarrow> ((ai_resp, files, proposed), s3)))"

definition api_ticket_ai_resolve ::
  "config \<Rightarrow> world \<Rightarrow> nat
     \<Rightarrow> (string + string \<times> string list \<times> (string \<times> nat) list) \<times> world" where
  \<comment> \<open>\<open>Inl msg\<close> is an error response; \<open>Inr (suggestion, files_analyzed, proposed_changes)\<close>
      the success response. \<open>result.get('error')\<close> is a truth test: an empty error text
      does not stop the operation\<close>
  "api_ticket_ai_resolve cfg s tid =
     (case get_ticket_by_id s tid of
        None \<Rightarrow> (Inl ''Ticket not found'', s)
      | Some t \<Rightarrow>
          (case process_task_two_step cfg s (ticket_task s t) of
             (Inl e, s1) \<Rightarrow>
               if e \<noteq> [] then (Inl e, s1)
               else (case store_and_propose cfg s1 tid t [] [] of (payload, s3) \<Rightarrow> (Inr payload, s3))
           | (Inr result, s1) \<Rightarrow>
               (case store_and_propose cfg s1 tid t (response result) (files_analyzed result) of
                  (payload, s3) \<Rightarrow> (Inr payload, s3))))"

fun apply_pending ::
  "config \<Rightarrow> world \<Rightarrow> (nat \<times> proposed_change) list \<Rightarrow> string list \<times> world" where
  \<comment> \<open>the loop of the \<open>accept\<close> action over the rows fetched before it\<close>
  "apply_pending cfg s [] = ([], s)"
| "apply_pending cfg s ((change_id, change) # changes) =
     (if status change = Pending
      then (case apply_proposed_change cfg s change_id of
              (Inr applied, s1) \<Rightarrow>
                (case apply_pending cfg s1 changes of
                   (applied_changes, s2) \<Rightarrow> (file_path change # applied_changes, s2))
            | (Inl e, s1) \<Rightarrow> apply_pending cfg s1 changes)
      else apply_pending cfg s changes)"

fun reject_pending :: "world \<Rightarrow> (nat \<times> proposed_change) list \<Rightarrow> world" where
  \<comment> \<open>the loop of the \<open>reject\<close> action\<close>
  "reject_pending s [] = s"
| "reject_pending s ((change_id, change) # changes) =
     (if status change = Pending
      then reject_pending (snd (reject_proposed_change s change_id)) changes
      else reject_pending s changes)"

datatype action_outcome =
  AcceptOutcome "string list"  \<comment> \<open>\<open>applied_changes\<close>\<close>
| RejectOutcome
| ProbeOutcome string

definition chat :: "world \<Rightarrow> string \<times> world" where
  "chat s = (case messages_create s of
               (GenOk r, s1) \<Rightarrow> (r, s1)
             | (GenFail e, s1) \<Rightarrow> (''Error: '' @ e, s1))"

definition api_ticket_ai_action ::
  "config \<Rightarrow> world \<Rightarrow> nat \<Rightarrow> string \<Rightarrow> string \<Rightarrow> (string + action_outcome) \<times> world" where
  "api_ticket_ai_action cfg s tid raw_action raw_message =
     (let action = strip raw_action
      in if action \<notin> {''accept'', ''reject'', ''probe''}
         then (Inl ''Invalid action. Use: accept, reject, or probe'', s)
         else
           (case get_ticket_by_id s tid of
              None \<Rightarrow> (Inl ''Ticket not found'', s)
            | Some t \<Rightarrow>
                if action = ''accept''
                then (case apply_pending cfg s (get_proposed_changes_for_ticket s tid) of
                        (applied_changes, s1) \<Rightarrow>
                          (Inr (AcceptOutcome applied_changes),
                           update_ticket_ai_status s1 tid Accepted))
                else if action = ''reject''
                then (Inr RejectOutcome,
                      update_ticket_ai_status
                        (reject_pending s (get_proposed_changes_for_ticket s tid)) tid Rejected)
                else if strip raw_message = []
                then (Inl ''Message required for probe action'', s)
                else (case chat s of (r, s1) \<Rightarrow> (Inr (ProbeOutcome r), s1))))"

section \<open>What the accept action of a ticket is to do\<close>

text \<open>
  The specification of the best-effort application, in terms of the guard and the write
  alone. The gated write of a change on a disk gives the new disk, or nothing when the guard
  rejects the target or the write fails. Applying a list of rows in order, each row is
  judged on the disk the rows before it left; the rows whose gated write went through are
  the rows written.
\<close>

definition target_of :: "config \<Rightarrow> proposed_change \<Rightarrow> path" where
  "target_of cfg c = path_join (TARGET_PROJECT_DIR cfg) (file_path c)"

definition gated_write :: "config \<Rightarrow> filesystem \<Rightarrow> proposed_change \<Rightarrow> filesystem option" where
  "gated_write cfg d c =
     (if validate_target_path cfg d (target_of cfg c)
      then (case write_text d (target_of cfg c) (proposed_content c) of
              Inl e \<Rightarrow> None
            | Inr d' \<Rightarrow> Some d')
      else None)"

fun written_rows ::
  "config \<Rightarrow> filesystem \<Rightarrow> (nat \<times> proposed_change) list
     \<Rightarrow> (nat \<times> proposed_change) list \<times> filesystem" where
  "written_rows cfg d [] = ([], d)"
| "written_rows cfg d ((i, c) # cs) =
     (case gated_write cfg d c of
        None \<Rightarrow> written_rows cfg d cs
      | Some d' \<Rightarrow> (case written_rows cfg d' cs of (ws, d'') \<Rightarrow> ((i, c) # ws, d'')))"

text \<open>
  The rows the action is to apply are the pending rows of the ticket, newest first, rows of
  one timestamp in the order of their ids. Accepting a row sets its status and the time of
  its resolution.
\<close>

definition pending_rows :: "world \<Rightarrow> nat \<Rightarrow> (nat \<times> proposed_change) list" where
  "pending_rows s tid = filter (\<lambda>(i, c). status c = Pending) (get_proposed_changes_for_ticket s tid)"

definition newest_first :: "nat \<times> proposed_change \<Rightarrow> nat \<times> proposed_change \<Rightarrow> bool" where
  "newest_first x y =
     (created_at (snd y) < created_at (snd x)
      \<or> (created_at (snd y) = created_at (snd x) \<and> fst x < fst y))"

definition accept_row :: "nat \<Rightarrow> proposed_change \<Rightarrow> proposed_change" where
  "accept_row t c = c\<lparr>status := Accepted, resolved_at := Some t\<rparr>"

section \<open>What resolving a ticket is to do\<close>

text \<open>
  The outcome of \<open>api_ticket_ai_resolve\<close> is stated against the following notions, none of
  which runs the code of the route. Two states have the same tables when they agree on the
  tickets, the proposed changes, the files and the replies still to come; the count of calls
  made to the generation service and the history tables are left out. The files analysed are the
  selected paths that \<open>read_file\<close> can read, each once, in the order in which the selection
  names them first. Every directive whose path is among these files asks the generation service
  for a new content, and gives a pending row when the service answers.
\<close>

definition same_tables :: "world \<Rightarrow> world \<Rightarrow> bool" where
  "same_tables s s' =
     (tickets s' = tickets s \<and> proposed_changes s' = proposed_changes s \<and>
      next_change_id s' = next_change_id s \<and> disk s' = disk s \<and> writes s' = writes s \<and>
      now s' = now s \<and> replies s' = replies s)"

definition selected_paths :: "json_item list \<Rightarrow> string list" where
  "selected_paths items = concat (map (\<lambda>i. case i of JStr p \<Rightarrow> [p] | JOther \<Rightarrow> []) items)"

definition readable :: "config \<Rightarrow> filesystem \<Rightarrow> string \<Rightarrow> bool" where
  "readable cfg fs p = (case read_file cfg fs p of Inl e \<Rightarrow> False | Inr file \<Rightarrow> True)"

definition first_occurrences :: "'a list \<Rightarrow> 'a list" where
  "first_occurrences xs = rev (remdups (rev xs))"

definition proposed_row ::
  "config \<Rightarrow> filesystem \<Rightarrow> nat \<Rightarrow> string \<Rightarrow> nat \<Rightarrow> string \<Rightarrow> string \<Rightarrow> string \<Rightarrow> proposed_change" where
  "proposed_row cfg d t ttl tid p instruction proposed =
     \<lparr>pc_ticket_id = Some tid, file_path = p,
      original_content = (case read_file cfg d p of Inl e \<Rightarrow> [] | Inr file \<Rightarrow> fd_content file),
      proposed_content = proposed, change_description = ttl @ '': '' @ instruction,
      status = Pending, created_at = t, resolved_at = None\<rparr>"

fun rows_to_create ::
  "config \<Rightarrow> filesystem \<Rightarrow> (nat \<Rightarrow> gen_result) \<Rightarrow> nat \<Rightarrow> nat \<Rightarrow> string \<Rightarrow> nat \<Rightarrow> string list
     \<Rightarrow> (string \<times> string) list \<Rightarrow> proposed_change list" where
  "rows_to_create cfg d reps k t ttl tid files [] = []"
| "rows_to_create cfg d reps k t ttl tid files ((p, instruction) # ds) =
     (if p \<in> set files \<and> readable cfg d p
      then (case reps k of
              GenOk proposed \<Rightarrow>
                proposed_row cfg d t ttl tid p instruction proposed
                  # rows_to_create cfg d reps (Suc k) t ttl tid files ds
            | GenFail e \<Rightarrow> rows_to_create cfg d reps (Suc k) t ttl tid files ds)
      else rows_to_create cfg d reps k t ttl tid files ds)"

section \<open>A sample installation\<close>

text \<open>
  The target project is \<open>/srv/shop\<close>; \<open>/srv/keys\<close> lies beside it. \<open>static.config\<close> is a
  directory whose name carries a whitelisted extension.
\<close>

definition cfg0 :: config where
  "cfg0 = \<lparr>TARGET_PROJECT_DIR = [''/'', ''srv'', ''shop''],
           json_loads = (\<lambda>m. if m = ''[app.py, ghost.py]''
                              then Some [JStr ''app.py'', JStr ''ghost.py''] else None)\<rparr>"

definition fs0 :: filesystem where
  "fs0 = \<lparr>entries =
            [([''/''], Dir 4096),
             ([''/'', ''srv''], Dir 4096),
             ([''/'', ''srv'', ''shop''], Dir 4096),
             ([''/'', ''srv'', ''shop'', ''app.py''], File ''print(1)''),
             ([''/'', ''srv'', ''shop'', ''static.config''], Dir 4096),
             ([''/'', ''srv'', ''keys''], Dir 4096),
             ([''/'', ''srv'', ''keys'', ''prod.json''], File ''{}'')],
          cwd = [''/'', ''srv'', ''agent'']\<rparr>"

definition change1 :: proposed_change where
  "change1 = \<lparr>pc_ticket_id = Some 1, file_path = ''app.py'', original_content = ''print(1)'',
              proposed_content = ''print(2)'', change_description = ''Crash: print two'',
              status = Pending, created_at = 5, resolved_at = None\<rparr>"

definition change2 :: proposed_change where
  "change2 = \<lparr>pc_ticket_id = Some 1, file_path = ''gone.py'', original_content = ''x = 1'',
              proposed_content = ''x = 2'', change_description = ''Crash: set x'',
              status = Pending, created_at = 6, resolved_at = None\<rparr>"

definition change3 :: proposed_change where
  "change3 = \<lparr>pc_ticket_id = Some 1, file_path = ''static.config'', original_content = [],
              proposed_content = ''debug = 0'', change_description = ''Crash: no debug'',
              status = Pending, created_at = 6, resolved_at = None\<rparr>"

definition ticket1 :: ticket where
  "ticket1 = \<lparr>title = ''Crash'', description = None, category = ''bug'', ticket_status = Open,
              priority = ''high'', project_id = None, ai_suggestion = None,
              ai_suggestion_status = None, ai_files_analyzed = None, updated_at = 1\<rparr>"

definition world0 :: world where
  "world0 = \<lparr>disk = fs0, writes = [],
             proposed_changes = [1 \<mapsto> change1, 2 \<mapsto> change2, 3 \<mapsto> change3],
             next_change_id = 4, tickets = [1 \<mapsto> ticket1], projects = Map.empty,
             changes_history = [], ai_context = [], now = 7,
             replies = (\<lambda>n. GenFail ''Connection error.''), calls = 0\<rparr>"

text \<open>
  Two replies of the generation service to a ticket: one with two directives and a line between
  them that is none, one that names \<open>app.py\<close> twice and a file that does not exist.
\<close>

definition reply_two :: string where
  "reply_two = ''Root cause: a wrong constant.'' @ [CHR 0x0A] @ ''FILES_TO_MODIFY:'' @ [CHR 0x0A]
     @ ''- app.py: print two'' @ [CHR 0x0A] @ ''(see above)'' @ [CHR 0x0A]
     @ ''- util.py: drop debug''"

definition reply_dup :: string where
  "reply_dup = ''Plan.'' @ [CHR 0x0A] @ ''FILES_TO_MODIFY:'' @ [CHR 0x0A]
     @ ''- app.py: first'' @ [CHR 0x0A] @ ''- ghost.py: nothing'' @ [CHR 0x0A]
     @ ''- app.py: second''"

text \<open>
  A second installation in which the generation service answers. The selection names
  \<open>app.py\<close> and the missing \<open>ghost.py\<close>; the reply to the ticket is \<open>reply_dup\<close>; the
  two contents proposed for \<open>app.py\<close> follow. In \<open>world1_down\<close> the service fails after the
  selection. \<open>change_first\<close> and \<open>change_second\<close> are the rows expected for the two
  directives of \<open>reply_dup\<close> that name \<open>app.py\<close>.
\<close>

definition selection_json :: string where
  "selection_json = ''['' @ [CHR 0x22] @ ''app.py'' @ [CHR 0x22] @ '', ''
                      @ [CHR 0x22] @ ''ghost.py'' @ [CHR 0x22] @ '']''"

definition cfg1 :: config where
  "cfg1 = \<lparr>TARGET_PROJECT_DIR = [''/'', ''srv'', ''shop''],
           json_loads = (\<lambda>m. if m = selection_json
                              then Some [JStr ''app.py'', JStr ''ghost.py''] else None)\<rparr>"

definition world1 :: world where
  "world1 = \<lparr>disk = fs0, writes = [], proposed_changes = Map.empty,
             next_change_id = 1, tickets = [1 \<mapsto> ticket1], projects = Map.empty,
             changes_history = [], ai_context = [], now = 7,
             replies = (\<lambda>n. if n = 0 then GenOk (''Relevant: '' @ selection_json)
                            else if n = 1 then GenOk reply_dup
                            else if n = 2 then GenOk ''print(2)'' else GenOk ''print(3)''),
             calls = 0\<rparr>"

definition world1_down :: world where
  "world1_down = world1\<lparr>replies := (\<lambda>n. if n = 0 then GenOk (''Relevant: '' @ selection_json)
                                         else GenFail ''Connection error.'')\<rparr>"

definition change_first :: proposed_change where
  "change_first = \<lparr>pc_ticket_id = Some 1, file_path = ''app.py'', original_content = ''print(1)'',
              proposed_content = ''print(2)'', change_description = ''Crash: first'',
              status = Pending, created_at = 7, resolved_at = None\<rparr>"

definition change_second :: proposed_change where
  "change_second = \<lparr>pc_ticket_id = Some 1, file_path = ''app.py'', original_content = ''print(1)'',
              proposed_content = ''print(3)'', change_description = ''Crash: second'',
              status = Pending, created_at = 7, resolved_at = None\<rparr>"

section \<open>The path guard\<close>

lemmas path_defs =
  validate_target_path_def path_join_def Path_def absolute_def is_absolute_def
  is_relative_to_def path_exists_def os_stat_def realpath_def parent_def path_suffix_def
  path_name_def ALLOWED_EXTENSIONS_def MAX_FILE_SIZE_def st_size_def

lemma realpath_absolute [simp]: "realpath fs (absolute fs p) = realpath fs p"
  by (cases "cwd fs") (auto simp: realpath_def absolute_def is_absolute_def Let_def)

lemma os_stat_absolute [simp]: "os_stat fs (absolute fs p) = os_stat fs p"
  by (simp add: os_stat_def)

lemma path_exists_absolute [simp]: "path_exists fs (absolute fs p) = path_exists fs p"
  by (simp add: path_exists_def)

text \<open>
  C1. The guard is specified to return true exactly when the resolved form of the path is a
  strict descendant of the target root, the path exists, its extension is whitelisted and
  its size is within the ceiling; in particular it is to reject every path that resolves
  outside the root. The code compares the unresolved parts: in the sample installation the
  path \<open>/srv/shop/../keys/prod.json\<close> resolves to \<open>/srv/keys/prod.json\<close>, outside the root,
  and the guard accepts it, so that \<open>read_file\<close> returns the content of that file.
\<close>

theorem validate_target_path_accepts_dotdot_escape:
  "validate_target_path cfg0 fs0 (path_join (TARGET_PROJECT_DIR cfg0) ''../keys/prod.json'')
   \<and> realpath fs0 (path_join (TARGET_PROJECT_DIR cfg0) ''../keys/prod.json'')
       = Some [''/'', ''srv'', ''keys'', ''prod.json'']
   \<and> \<not> strict_descendant [''/'', ''srv'', ''keys'', ''prod.json''] (TARGET_PROJECT_DIR cfg0)
   \<and> \<not> spec_validate cfg0 fs0 (path_join (TARGET_PROJECT_DIR cfg0) ''../keys/prod.json'')
   \<and> read_file cfg0 fs0 ''../keys/prod.json''
       = Inr \<lparr>fd_path = ''../keys/prod.json'', fd_content = ''{}'', fd_size = 2,
              fd_extension = ''.json''\<rparr>"
  by (simp add: cfg0_def fs0_def path_defs spec_validate_def strict_descendant_def read_file_def
      read_text_def)

section \<open>Reading a file\<close>

lemma read_file_missing:
  "\<not> path_exists fs (path_join (TARGET_PROJECT_DIR cfg) p) \<Longrightarrow>
   read_file cfg fs p = Inl ''File access denied - safety check failed''"
  by (simp add: read_file_def validate_target_path_def Let_def)

lemma read_file_never_not_found: "read_file cfg fs p \<noteq> Inl (''File not found: '' @ p)"
  by (auto simp: read_file_def validate_target_path_def Let_def read_text_def os_error_def
      path_exists_def split: sum.splits option.splits entry.splits if_splits)

text \<open>
  C10. A relative path inside the target root with a whitelisted extension that names no
  file is specified to give the not-found result, distinct from the access-denied result of
  a guard rejection. The guard itself tests existence first, so the not-found branch of
  \<open>read_file\<close> is never reached: in the sample installation \<open>missing.txt\<close> gets the same
  access-denied result as \<open>/etc/passwd\<close>.
\<close>

theorem read_file_missing_is_access_denied:
  "\<not> path_exists fs0 (path_join (TARGET_PROJECT_DIR cfg0) ''missing.txt'')
   \<and> strict_descendant (path_join (TARGET_PROJECT_DIR cfg0) ''missing.txt'') (TARGET_PROJECT_DIR cfg0)
   \<and> path_suffix (path_join (TARGET_PROJECT_DIR cfg0) ''missing.txt'') \<in> set ALLOWED_EXTENSIONS
   \<and> read_file cfg0 fs0 ''missing.txt'' = Inl ''File access denied - safety check failed''
   \<and> read_file cfg0 fs0 ''missing.txt'' = read_file cfg0 fs0 ''/etc/passwd''"
  by (simp add: cfg0_def fs0_def path_defs strict_descendant_def read_file_def read_text_def)

section \<open>The life of a proposed change\<close>

lemma map_of_update: "map_of (AList.update k v al) k' = (if k' = k then Some v else map_of al k')"
  by (simp add: update_conv')

lemma walk_update_file:
  "map_of es c = Some (File old) \<Longrightarrow>
   walk (AList.update c (File new) es) cur segs = walk es cur segs"
proof (induction segs arbitrary: cur)
  case Nil
  then show ?case by simp
next
  case (Cons seg segs)
  then show ?case by (simp add: map_of_update split: option.splits entry.splits)
qed

lemma realpath_update_file:
  "map_of (entries fs) c = Some (File old) \<Longrightarrow>
   realpath (fs\<lparr>entries := AList.update c (File new) (entries fs)\<rparr>) p = realpath fs p"
  by (simp add: realpath_def absolute_def Let_def walk_update_file)

lemma write_text_file:
  assumes "os_stat fs p = Some (File old)"
  shows "\<exists>c. realpath fs p = Some c \<and> map_of (entries fs) c = Some (File old) \<and>
             write_text fs p new = Inr (fs\<lparr>entries := AList.update c (File new) (entries fs)\<rparr>)"
  using assms by (auto simp: os_stat_def write_text_def split: option.splits)

lemma read_after_write:
  assumes "os_stat fs p = Some (File old)" and "write_text fs p new = Inr fs'"
  shows "read_text fs' p = Inr new"
proof -
  from write_text_file [OF assms(1), of new] obtain c where
    c: "realpath fs p = Some c" "map_of (entries fs) c = Some (File old)"
       "write_text fs p new = Inr (fs\<lparr>entries := AList.update c (File new) (entries fs)\<rparr>)"
    by blast
  with assms(2) have fs': "fs' = fs\<lparr>entries := AList.update c (File new) (entries fs)\<rparr>"
    by simp
  have "realpath fs' p = Some c"
    unfolding fs' using c by (simp add: realpath_update_file)
  then show ?thesis
    by (simp add: read_text_def os_stat_def fs' map_of_update)
qed

text \<open>
  C2. Accepting a pending change whose target passes the guard and is a regular file writes
  the proposed content to the target (reading the target afterwards returns it, and the
  trace of writes grows by exactly this write), and the row becomes accepted. A second
  resolution of the same id, accepting or rejecting, returns the error naming the current
  status and leaves the whole state, files and trace included, as it was.
\<close>

theorem accept_then_conflict:
  assumes row: "get_proposed_change s cid = Some c" and pending: "status c = Pending"
    and guard: "validate_target_path cfg (disk s) (path_join (TARGET_PROJECT_DIR cfg) (file_path c))"
    and regular: "os_stat (disk s) (path_join (TARGET_PROJECT_DIR cfg) (file_path c)) = Some (File old)"
    and run: "apply_proposed_change cfg s cid = (r, s')"
  shows "r = Inr (cid, file_path c)
       \<and> read_text (disk s') (path_join (TARGET_PROJECT_DIR cfg) (file_path c)) = Inr (proposed_content c)
       \<and> writes s' = writes s @ [(path_join (TARGET_PROJECT_DIR cfg) (file_path c), proposed_content c)]
       \<and> get_proposed_change s' cid = Some (c\<lparr>status := Accepted, resolved_at := Some (now s)\<rparr>)
       \<and> apply_proposed_change cfg s' cid = (Inl ''Change already accepted'', s')
       \<and> reject_proposed_change s' cid = (Inl ''Change already accepted'', s')"
proof -
  let ?t = "path_join (TARGET_PROJECT_DIR cfg) (file_path c)"
  from write_text_file [OF regular] obtain fs' where
    w: "write_text (disk s) ?t (proposed_content c) = Inr fs'"
    by blast
  have rd: "read_text fs' ?t = Inr (proposed_content c)"
    by (rule read_after_write [OF regular w])
  from run row pending guard w have r: "r = Inr (cid, file_path c)"
    and s': "s' = record_change (update_proposed_change_status
                 (s\<lparr>disk := fs', writes := writes s @ [(?t, proposed_content c)]\<rparr>) cid Accepted)
                 [file_path c] ''modify'' (take 200 (change_description c))
                 (take 500 (proposed_content c)) (pc_ticket_id c)"
    by (auto simp: apply_proposed_change_def Let_def)
  have d: "disk s' = fs'" and wr: "writes s' = writes s @ [(?t, proposed_content c)]"
    and g: "get_proposed_change s' cid = Some (c\<lparr>status := Accepted, resolved_at := Some (now s)\<rparr>)"
    using row unfolding s'
    by (auto simp: record_change_def update_proposed_change_status_def get_proposed_change_def)
  have a2: "apply_proposed_change cfg s' cid = (Inl ''Change already accepted'', s')"
    using g by (simp add: apply_proposed_change_def status_str_def)
  have r2: "reject_proposed_change s' cid = (Inl ''Change already accepted'', s')"
    using g by (simp add: reject_proposed_change_def status_str_def)
  show ?thesis using r rd d wr g a2 r2 by simp
qed

theorem accept_then_conflict_witness:
  "get_proposed_change world0 1 = Some change1 \<and> status change1 = Pending
   \<and> validate_target_path cfg0 (disk world0) (path_join (TARGET_PROJECT_DIR cfg0) (file_path change1))
   \<and> os_stat (disk world0) (path_join (TARGET_PROJECT_DIR cfg0) (file_path change1)) = Some (File ''print(1)'')
   \<and> fst (apply_proposed_change cfg0 world0 1) = Inr (1, ''app.py'')
   \<and> read_text (disk (snd (apply_proposed_change cfg0 world0 1))) [''/'', ''srv'', ''shop'', ''app.py'']
       = Inr ''print(2)''
   \<and> writes (snd (apply_proposed_change cfg0 world0 1)) = [([''/'', ''srv'', ''shop'', ''app.py''], ''print(2)'')]
   \<and> map_option status (get_proposed_change (snd (apply_proposed_change cfg0 world0 1)) 1) = Some Accepted
   \<and> apply_proposed_change cfg0 (snd (apply_proposed_change cfg0 world0 1)) 1
       = (Inl ''Change already accepted'', snd (apply_proposed_change cfg0 world0 1))
   \<and> reject_proposed_change (snd (apply_proposed_change cfg0 world0 1)) 1
       = (Inl ''Change already accepted'', snd (apply_proposed_change cfg0 world0 1))"
proof -
  have h1: "get_proposed_change world0 1 = Some change1"
    by (simp add: get_proposed_change_def world0_def)
  have h2: "status change1 = Pending"
    by (simp add: change1_def)
  have h3: "validate_target_path cfg0 (disk world0)
              (path_join (TARGET_PROJECT_DIR cfg0) (file_path change1))"
    by (simp add: world0_def change1_def cfg0_def fs0_def path_defs)
  have h4: "os_stat (disk world0) (path_join (TARGET_PROJECT_DIR cfg0) (file_path change1))
              = Some (File ''print(1)'')"
    by (simp add: world0_def change1_def cfg0_def fs0_def path_defs)
  have p: "path_join (TARGET_PROJECT_DIR cfg0) ''app.py'' = [''/'', ''srv'', ''shop'', ''app.py'']"
    by (simp add: cfg0_def path_join_def Path_def)
  have f: "file_path change1 = ''app.py''" "proposed_content change1 = ''print(2)''"
    "writes world0 = []"
    by (simp_all add: change1_def world0_def)
  from accept_then_conflict [OF h1 h2 h3 h4 surjective_pairing] h1 h2 h3 h4
  show ?thesis
    by (simp add: p f)
qed

text \<open>
  C3. Accepting evaluates the guard on the files as they are at that moment and writes
  before it commits the status. For a pending change: if the guard rejects, or if the guard
  passes and the write fails, the call returns the error and the state is unchanged, so the
  row is still pending; every error return leaves the state unchanged; and a success means
  that the guard passed on the current files and that the files are those the write
  produced.
\<close>

theorem accept_failure_keeps_pending:
  assumes row: "get_proposed_change s cid = Some c" and pending: "status c = Pending"
  shows "(\<not> validate_target_path cfg (disk s) (path_join (TARGET_PROJECT_DIR cfg) (file_path c))
            \<longrightarrow> apply_proposed_change cfg s cid = (Inl ''Safety check failed on write'', s))
       \<and> (validate_target_path cfg (disk s) (path_join (TARGET_PROJECT_DIR cfg) (file_path c))
            \<and> write_text (disk s) (path_join (TARGET_PROJECT_DIR cfg) (file_path c)) (proposed_content c) = Inl e
            \<longrightarrow> apply_proposed_change cfg s cid = (Inl e, s))
       \<and> (\<forall>r s'. apply_proposed_change cfg s cid = (r, s') \<longrightarrow>
             (case r of
                Inl err \<Rightarrow> s' = s
              | Inr a \<Rightarrow>
                  validate_target_path cfg (disk s) (path_join (TARGET_PROJECT_DIR cfg) (file_path c))
                  \<and> write_text (disk s) (path_join (TARGET_PROJECT_DIR cfg) (file_path c))
                        (proposed_content c) = Inr (disk s')))"
  using row pending
  by (auto simp: apply_proposed_change_def Let_def record_change_def
      update_proposed_change_status_def get_proposed_change_def split: sum.splits)

theorem accept_failure_keeps_pending_witness:
  "get_proposed_change world0 2 = Some change2 \<and> status change2 = Pending
   \<and> \<not> validate_target_path cfg0 (disk world0) (path_join (TARGET_PROJECT_DIR cfg0) (file_path change2))
   \<and> apply_proposed_change cfg0 world0 2 = (Inl ''Safety check failed on write'', world0)
   \<and> get_proposed_change world0 3 = Some change3 \<and> status change3 = Pending
   \<and> validate_target_path cfg0 (disk world0) (path_join (TARGET_PROJECT_DIR cfg0) (file_path change3))
   \<and> write_text (disk world0) (path_join (TARGET_PROJECT_DIR cfg0) (file_path change3)) (proposed_content change3)
       = Inl (os_error ''[Errno 21] Is a directory'' [''/'', ''srv'', ''shop'', ''static.config''])
   \<and> apply_proposed_change cfg0 world0 3
       = (Inl (os_error ''[Errno 21] Is a directory'' [''/'', ''srv'', ''shop'', ''static.config'']), world0)
   \<and> get_proposed_change world0 1 = Some change1 \<and> status change1 = Pending
   \<and> fst (apply_proposed_change cfg0 world0 1) = Inr (1, ''app.py'')
   \<and> validate_target_path cfg0 (disk world0) (path_join (TARGET_PROJECT_DIR cfg0) (file_path change1))
   \<and> write_text (disk world0) (path_join (TARGET_PROJECT_DIR cfg0) (file_path change1)) (proposed_content change1)
       = Inr (disk (snd (apply_proposed_change cfg0 world0 1)))"
proof -
  have r1: "get_proposed_change world0 1 = Some change1" "status change1 = Pending"
    and r2: "get_proposed_change world0 2 = Some change2" "status change2 = Pending"
    and r3: "get_proposed_change world0 3 = Some change3" "status change3 = Pending"
    by (simp_all add: get_proposed_change_def world0_def change1_def change2_def change3_def)
  have g2: "\<not> validate_target_path cfg0 (disk world0)
               (path_join (TARGET_PROJECT_DIR cfg0) (file_path change2))"
    by (simp add: world0_def change2_def cfg0_def fs0_def path_defs)
  have g3: "validate_target_path cfg0 (disk world0)
               (path_join (TARGET_PROJECT_DIR cfg0) (file_path change3))"
    by (simp add: world0_def change3_def cfg0_def fs0_def path_defs)
  have w3: "write_text (disk world0) (path_join (TARGET_PROJECT_DIR cfg0) (file_path change3))
              (proposed_content change3)
            = Inl (os_error ''[Errno 21] Is a directory'' [''/'', ''srv'', ''shop'', ''static.config''])"
    by (simp add: world0_def change3_def cfg0_def fs0_def write_text_def path_defs)
  have a1: "fst (apply_proposed_change cfg0 world0 1) = Inr (1, ''app.py'')"
    using r1 by (simp add: apply_proposed_change_def Let_def world0_def change1_def cfg0_def
        fs0_def write_text_def path_defs)
  from accept_failure_keeps_pending [OF r2, of cfg0] g2
  have c2: "apply_proposed_change cfg0 world0 2 = (Inl ''Safety check failed on write'', world0)"
    by blast
  from accept_failure_keeps_pending [OF r3, of cfg0] g3 w3
  have c3: "apply_proposed_change cfg0 world0 3
       = (Inl (os_error ''[Errno 21] Is a directory'' [''/'', ''srv'', ''shop'', ''static.config'']), world0)"
    by blast
  from accept_failure_keeps_pending [OF r1, of cfg0]
  have "\<forall>r s'. apply_proposed_change cfg0 world0 1 = (r, s') \<longrightarrow>
             (case r of
                Inl err \<Rightarrow> s' = world0
              | Inr a \<Rightarrow>
                  validate_target_path cfg0 (disk world0) (path_join (TARGET_PROJECT_DIR cfg0) (file_path change1))
                  \<and> write_text (disk world0) (path_join (TARGET_PROJECT_DIR cfg0) (file_path change1))
                        (proposed_content change1) = Inr (disk s'))"
    by blast
  then have "case fst (apply_proposed_change cfg0 world0 1) of
                Inl err \<Rightarrow> snd (apply_proposed_change cfg0 world0 1) = world0
              | Inr a \<Rightarrow>
                  validate_target_path cfg0 (disk world0) (path_join (TARGET_PROJECT_DIR cfg0) (file_path change1))
                  \<and> write_text (disk world0) (path_join (TARGET_PROJECT_DIR cfg0) (file_path change1))
                        (proposed_content change1) = Inr (disk (snd (apply_proposed_change cfg0 world0 1)))"
    by (metis surjective_pairing)
  with a1 have c1: "validate_target_path cfg0 (disk world0) (path_join (TARGET_PROJECT_DIR cfg0) (file_path change1))
                  \<and> write_text (disk world0) (path_join (TARGET_PROJECT_DIR cfg0) (file_path change1))
                        (proposed_content change1) = Inr (disk (snd (apply_proposed_change cfg0 world0 1)))"
    by simp
  show ?thesis
    using r1 r2 r3 g2 g3 w3 a1 c1 c2 c3 by blast
qed

text \<open>
  C4. Creating a proposed change does not read or write the files, whatever the content,
  and the new row is pending; rejecting a change does not read or write the files either.
\<close>

theorem create_and_reject_leave_files:
  "disk (snd (create_proposed_change s fpath original proposed descr tid)) = disk s
   \<and> writes (snd (create_proposed_change s fpath original proposed descr tid)) = writes s
   \<and> create_proposed_change (s\<lparr>disk := d\<rparr>) fpath original proposed descr tid
       = (fst (create_proposed_change s fpath original proposed descr tid),
          (snd (create_proposed_change s fpath original proposed descr tid))\<lparr>disk := d\<rparr>)
   \<and> map_option status
        (get_proposed_change (snd (create_proposed_change s fpath original proposed descr tid))
           (fst (create_proposed_change s fpath original proposed descr tid))) = Some Pending
   \<and> disk (snd (reject_proposed_change s cid)) = disk s
   \<and> writes (snd (reject_proposed_change s cid)) = writes s
   \<and> reject_proposed_change (s\<lparr>disk := d\<rparr>) cid
       = (fst (reject_proposed_change s cid), (snd (reject_proposed_change s cid))\<lparr>disk := d\<rparr>)"
  by (auto simp: create_proposed_change_def Let_def reject_proposed_change_def
      get_proposed_change_def update_proposed_change_status_def split: option.splits)

section \<open>Accepting at the level of a ticket\<close>

lemma apply_gated_none:
  assumes "proposed_changes s i = Some c" "status c = Pending" "gated_write cfg (disk s) c = None"
  shows "\<exists>e. apply_proposed_change cfg s i = (Inl e, s)"
  using assms
  by (auto simp: apply_proposed_change_def get_proposed_change_def gated_write_def target_of_def
      Let_def split: if_splits sum.splits)

lemma apply_gated_some:
  assumes "proposed_changes s i = Some c" "status c = Pending" "gated_write cfg (disk s) c = Some d'"
  shows "apply_proposed_change cfg s i
           = (Inr (i, file_path c),
              record_change
                (update_proposed_change_status
                   (s\<lparr>disk := d', writes := writes s @ [(target_of cfg c, proposed_content c)]\<rparr>)
                   i Accepted)
                [file_path c] ''modify'' (take 200 (change_description c))
                (take 500 (proposed_content c)) (pc_ticket_id c))"
  using assms
  by (auto simp: apply_proposed_change_def get_proposed_change_def gated_write_def target_of_def
      Let_def split: if_splits sum.splits)

lemma written_rows_subset: "set (fst (written_rows cfg d cs)) \<subseteq> set cs"
  by (induction cfg d cs rule: written_rows.induct) (auto split: option.splits prod.splits)

lemma written_rows_append:
  "written_rows cfg d (xs @ ys) =
     (case written_rows cfg d xs of (ws, d1) \<Rightarrow>
        case written_rows cfg d1 ys of (ws', d2) \<Rightarrow> (ws @ ws', d2))"
  by (induction cfg d xs rule: written_rows.induct) (auto split: option.splits prod.splits)

lemma apply_pending_spec:
  assumes "distinct (map fst cs)" and "\<forall>(i, c)\<in>set cs. proposed_changes s i = Some c"
    and "apply_pending cfg s cs = (applied, s')"
    and "written_rows cfg (disk s) (filter (\<lambda>(i, c). status c = Pending) cs) = (ws, d)"
  shows "applied = map (\<lambda>(i, c). file_path c) ws \<and> disk s' = d
       \<and> writes s' = writes s @ map (\<lambda>(i, c). (target_of cfg c, proposed_content c)) ws
       \<and> (\<forall>j. proposed_changes s' j
                = (if j \<in> fst ` set ws then map_option (accept_row (now s)) (proposed_changes s j)
                   else proposed_changes s j))
       \<and> tickets s' = tickets s \<and> now s' = now s \<and> next_change_id s' = next_change_id s"
  using assms
proof (induction cs arbitrary: s applied s' ws d)
  case Nil
  then show ?case by simp
next
  case (Cons x cs)
  obtain i c where x: "x = (i, c)" by (cases x)
  from Cons.prems(1) x have dist: "distinct (map fst cs)" and fresh: "i \<notin> fst ` set cs" by auto
  from Cons.prems(2) x have row: "proposed_changes s i = Some c"
    and rows: "\<forall>(j, c')\<in>set cs. proposed_changes s j = Some c'" by auto
  show ?case
  proof (cases "status c = Pending")
    case False
    with Cons.prems(3,4) x have "apply_pending cfg s cs = (applied, s')"
      "written_rows cfg (disk s) (filter (\<lambda>(i, c). status c = Pending) cs) = (ws, d)"
      by simp_all
    from Cons.IH [OF dist rows this] show ?thesis .
  next
    case True
    show ?thesis
    proof (cases "gated_write cfg (disk s) c")
      case None
      from apply_gated_none [OF row True None] obtain e where
        a: "apply_proposed_change cfg s i = (Inl e, s)" by blast
      with Cons.prems(3,4) x True None have "apply_pending cfg s cs = (applied, s')"
        "written_rows cfg (disk s) (filter (\<lambda>(i, c). status c = Pending) cs) = (ws, d)"
        by simp_all
      from Cons.IH [OF dist rows this] show ?thesis .
    next
      case (Some d1)
      define s1 where "s1 = record_change
                (update_proposed_change_status
                   (s\<lparr>disk := d1, writes := writes s @ [(target_of cfg c, proposed_content c)]\<rparr>)
                   i Accepted)
                [file_path c] ''modify'' (take 200 (change_description c))
                (take 500 (proposed_content c)) (pc_ticket_id c)"
      from apply_gated_some [OF row True Some]
      have a: "apply_proposed_change cfg s i = (Inr (i, file_path c), s1)"
        by (simp add: s1_def)
      have s1: "disk s1 = d1" "writes s1 = writes s @ [(target_of cfg c, proposed_content c)]"
        "proposed_changes s1 = (proposed_changes s)(i \<mapsto> accept_row (now s) c)"
        "tickets s1 = tickets s" "now s1 = now s" "next_change_id s1 = next_change_id s"
        using row
        by (simp_all add: s1_def record_change_def update_proposed_change_status_def accept_row_def)
      obtain rest s2 where r: "apply_pending cfg s1 cs = (rest, s2)" by fastforce
      obtain ws1 d2 where w: "written_rows cfg d1 (filter (\<lambda>(i, c). status c = Pending) cs) = (ws1, d2)"
        by fastforce
      from Cons.prems(3) x True a r have ap: "applied = file_path c # rest" "s' = s2" by simp_all
      from Cons.prems(4) x True Some w have ws: "ws = (i, c) # ws1" "d = d2" by simp_all
      have rows1: "\<forall>(j, c')\<in>set cs. proposed_changes s1 j = Some c'"
      proof (clarify)
        fix j c' assume m: "(j, c') \<in> set cs"
        with fresh have "j \<noteq> i" by force
        moreover from rows m have "proposed_changes s j = Some c'" by blast
        ultimately show "proposed_changes s1 j = Some c'" by (simp add: s1(3))
      qed
      from w have w': "written_rows cfg (disk s1) (filter (\<lambda>(i, c). status c = Pending) cs) = (ws1, d2)"
        by (simp add: s1(1))
      note ih = Cons.IH [OF dist rows1 r w']
      have sub: "fst ` set ws1 \<subseteq> fst ` set cs"
        using written_rows_subset [of cfg d1 "filter (\<lambda>(i, c). status c = Pending) cs"] w
        by auto
      with fresh have nin: "i \<notin> fst ` set ws1" by auto
      have rowsf: "\<forall>j. proposed_changes s2 j
                = (if j \<in> fst ` set ws then map_option (accept_row (now s)) (proposed_changes s j)
                   else proposed_changes s j)"
      proof
        fix j
        from ih have e: "proposed_changes s2 j
                = (if j \<in> fst ` set ws1 then map_option (accept_row (now s1)) (proposed_changes s1 j)
                   else proposed_changes s1 j)" by simp
        show "proposed_changes s2 j
                = (if j \<in> fst ` set ws then map_option (accept_row (now s)) (proposed_changes s j)
                   else proposed_changes s j)"
        proof (cases "j = i")
          case True
          with e nin row show ?thesis by (simp add: ws s1)
        next
          case False
          with e show ?thesis by (simp add: ws s1)
        qed
      qed
      from ih rowsf show ?thesis
        by (simp add: ap ws s1)
    qed
  qed
qed

lemma rows_of_ids:
  "map fst (concat (map (\<lambda>i. case rows i of
                            None \<Rightarrow> []
                          | Some r \<Rightarrow> if P r then [(i, r)] else []) ids))
     = filter (\<lambda>i. \<exists>r. rows i = Some r \<and> P r) ids"
  by (induction ids) (auto split: option.splits)

lemma listing_set:
  "set (get_proposed_changes_for_ticket s tid)
     = {(i, c). i < next_change_id s \<and> proposed_changes s i = Some c \<and> pc_ticket_id c = Some tid}"
  unfolding get_proposed_changes_for_ticket_def
  by (auto split: option.splits if_splits)

lemma listing_distinct: "distinct (map fst (get_proposed_changes_for_ticket s tid))"
proof -
  let ?R = "concat (map (\<lambda>i. case proposed_changes s i of
                            None \<Rightarrow> []
                          | Some r \<Rightarrow> if pc_ticket_id r = Some tid then [(i, r)] else [])
                    [0..<next_change_id s])"
  have "distinct (map fst ?R)" by (simp add: rows_of_ids)
  then have "distinct ?R" "inj_on fst (set ?R)" by (simp_all add: distinct_map)
  then show ?thesis
    unfolding get_proposed_changes_for_ticket_def by (simp add: distinct_map)
qed

lemma insort_newest_first:
  assumes "sorted_wrt newest_first ys" and "\<forall>y\<in>set ys. fst x < fst y"
  shows "sorted_wrt newest_first (insort_key (\<lambda>x. - int (created_at (snd x))) x ys)"
  using assms
proof (induction ys)
  case Nil
  then show ?case by simp
next
  case (Cons y ys)
  show ?case
  proof (cases "created_at (snd y) \<le> created_at (snd x)")
    case True
    have "\<forall>z\<in>set (y # ys). newest_first x z"
    proof
      fix z assume z: "z \<in> set (y # ys)"
      have "created_at (snd z) \<le> created_at (snd y)"
        using z Cons.prems(1) by (auto simp: newest_first_def)
      with True z Cons.prems(2) show "newest_first x z"
        by (auto simp: newest_first_def)
    qed
    with True Cons.prems(1) show ?thesis
      by simp
  next
    case False
    then have yx: "newest_first y x" by (simp add: newest_first_def)
    from Cons have "sorted_wrt newest_first (insort_key (\<lambda>x. - int (created_at (snd x))) x ys)"
      by simp
    with False yx Cons.prems(1) show ?thesis
      by (auto simp: set_insort_key)
  qed
qed

lemma sort_newest_first:
  assumes "sorted (map fst R)" "distinct (map fst R)"
  shows "sorted_wrt newest_first (sort_key (\<lambda>x. - int (created_at (snd x))) R)"
  using assms
proof (induction R)
  case Nil
  then show ?case by simp
next
  case (Cons x R)
  from Cons.prems have "\<forall>y\<in>set R. fst x < fst y"
    by (auto simp: le_less)
  then have "\<forall>y\<in>set (sort_key (\<lambda>x. - int (created_at (snd x))) R). fst x < fst y"
    by simp
  moreover from Cons have "sorted_wrt newest_first (sort_key (\<lambda>x. - int (created_at (snd x))) R)"
    by simp
  ultimately show ?case
    by (simp add: insort_newest_first)
qed

lemma listing_key: "(\<lambda>(i, r). - int (created_at r)) = (\<lambda>x. - int (created_at (snd x)))"
  by (simp add: fun_eq_iff)

lemma sorted_filter_upt: "sorted (filter P [m..<n])"
  by (intro sorted_wrt_filter) simp

lemma listing_newest_first: "sorted_wrt newest_first (get_proposed_changes_for_ticket s tid)"
  unfolding get_proposed_changes_for_ticket_def listing_key
  by (rule sort_newest_first) (simp_all add: rows_of_ids sorted_filter_upt)

lemma pending_rows_set:
  "set (pending_rows s tid)
     = {(i, c). i < next_change_id s \<and> proposed_changes s i = Some c \<and>
                pc_ticket_id c = Some tid \<and> status c = Pending}"
  by (auto simp: pending_rows_def listing_set)

lemma pending_rows_distinct: "distinct (map fst (pending_rows s tid))"
  unfolding pending_rows_def using listing_distinct [of s tid]
  by (simp add: distinct_map_filter)

lemma pending_rows_newest_first: "sorted_wrt newest_first (pending_rows s tid)"
  unfolding pending_rows_def using listing_newest_first [of s tid]
  by (rule sorted_wrt_filter)

lemma written_at_turn:
  assumes "distinct (map fst (xs @ (i, c) # ys))"
  shows "(i, c) \<in> set (fst (written_rows cfg d (xs @ (i, c) # ys)))
           \<longleftrightarrow> gated_write cfg (snd (written_rows cfg d xs)) c \<noteq> None"
proof -
  obtain w1 d1 where a: "written_rows cfg d xs = (w1, d1)" by fastforce
  have n1: "(i, c) \<notin> set w1"
    using written_rows_subset [of cfg d xs] a assms by force
  have n2: "(i, c) \<notin> set (fst (written_rows cfg d' ys))" for d'
    using written_rows_subset [of cfg d' ys] assms by force
  show ?thesis
  proof (cases "gated_write cfg d1 c")
    case None
    obtain w2 d2 where b: "written_rows cfg d1 ys = (w2, d2)" by fastforce
    with n2 [of d1] have "(i, c) \<notin> set w2" by simp
    with n1 None a b show ?thesis by (simp add: written_rows_append)
  next
    case (Some d')
    obtain w2 d2 where b: "written_rows cfg d' ys = (w2, d2)" by fastforce
    with Some a show ?thesis by (simp add: written_rows_append)
  qed
qed

lemma pending0: "pending_rows world0 (Suc 0) = [(2, change2), (3, change3), (Suc 0, change1)]"
  by (simp add: pending_rows_def get_proposed_changes_for_ticket_def world0_def change1_def
      change2_def change3_def upt_rec)

lemma gated0_2: "gated_write cfg0 fs0 change2 = None"
  by (simp add: gated_write_def target_of_def change2_def cfg0_def fs0_def path_defs)

lemma gated0_3: "gated_write cfg0 fs0 change3 = None"
  by (simp add: gated_write_def target_of_def change3_def cfg0_def fs0_def path_defs write_text_def)

lemma gated0_1:
  "gated_write cfg0 fs0 change1
     = Some (fs0\<lparr>entries := AList.update [''/'', ''srv'', ''shop'', ''app.py''] (File ''print(2)'')
                               (entries fs0)\<rparr>)"
  by (simp add: gated_write_def target_of_def change1_def cfg0_def fs0_def path_defs write_text_def)

text \<open>
  C5. The accept action of a ticket applies the pending rows of that ticket and no other
  row: these are exactly the stored rows of the ticket that are pending, each once, newest
  first. Each row is judged in its turn, on the files the rows before it left: it is
  written exactly when the guard passes and the write succeeds then, whether or not an
  earlier row failed. Afterwards the files are those the writes of the written rows
  produced, the trace of writes has grown by exactly these writes, the written rows are
  accepted and every other row is as it was, and the answer lists the files of the
  written rows, in order. Whatever the outcomes, the ticket's \<open>ai_suggestion_status\<close>
  is accepted and its status resolved.
\<close>

theorem ticket_accept_applies_pending:
  assumes ticket: "get_ticket_by_id s tid = Some t"
    and run: "api_ticket_ai_action cfg s tid ''accept'' msg = (r, s')"
    and spec: "written_rows cfg (disk s) (pending_rows s tid) = (ws, d)"
  shows "set (pending_rows s tid)
           = {(i, c). i < next_change_id s \<and> proposed_changes s i = Some c \<and>
                      pc_ticket_id c = Some tid \<and> status c = Pending}
       \<and> distinct (map fst (pending_rows s tid))
       \<and> sorted_wrt newest_first (pending_rows s tid)
       \<and> r = Inr (AcceptOutcome (map (\<lambda>(i, c). file_path c) ws))
       \<and> disk s' = d
       \<and> writes s' = writes s @ map (\<lambda>(i, c). (target_of cfg c, proposed_content c)) ws
       \<and> (\<forall>j. proposed_changes s' j
                = (if j \<in> fst ` set ws
                   then map_option (accept_row (now s)) (proposed_changes s j)
                   else proposed_changes s j))
       \<and> tickets s'
           = (tickets s)(tid \<mapsto> t\<lparr>ai_suggestion_status := Some Accepted,
                                   ticket_status := Resolved, updated_at := now s\<rparr>)
       \<and> (\<forall>xs i c ys. pending_rows s tid = xs @ (i, c) # ys \<longrightarrow>
             ((i, c) \<in> set ws
                \<longleftrightarrow> gated_write cfg (snd (written_rows cfg (disk s) xs)) c \<noteq> None))"
proof -
  let ?L = "get_proposed_changes_for_ticket s tid"
  obtain applied s1 where loop: "apply_pending cfg s ?L = (applied, s1)" by fastforce
  have action: "strip ''accept'' = ''accept''"
    by (simp add: strip_def is_space_def)
  from run ticket loop action have r: "r = Inr (AcceptOutcome applied)"
    and s': "s' = update_ticket_ai_status s1 tid Accepted"
    by (simp_all add: api_ticket_ai_action_def)
  have rows: "\<forall>(i, c)\<in>set ?L. proposed_changes s i = Some c"
    by (auto simp: listing_set)
  from spec have spec': "written_rows cfg (disk s) (filter (\<lambda>(i, c). status c = Pending) ?L) = (ws, d)"
    by (simp add: pending_rows_def)
  note sp = apply_pending_spec [OF listing_distinct rows loop spec']
  from sp have s1: "applied = map (\<lambda>(i, c). file_path c) ws" "disk s1 = d"
    "writes s1 = writes s @ map (\<lambda>(i, c). (target_of cfg c, proposed_content c)) ws"
    "tickets s1 = tickets s" "now s1 = now s"
    by simp_all
  from sp have rw: "\<forall>j. proposed_changes s1 j
                = (if j \<in> fst ` set ws
                   then map_option (accept_row (now s)) (proposed_changes s j)
                   else proposed_changes s j)"
    by blast
  have u: "disk s' = disk s1" "writes s' = writes s1" "proposed_changes s' = proposed_changes s1"
    unfolding s' by (simp_all add: update_ticket_ai_status_def split: option.splits)
  have tk: "tickets s'
           = (tickets s)(tid \<mapsto> t\<lparr>ai_suggestion_status := Some Accepted,
                                   ticket_status := Resolved, updated_at := now s\<rparr>)"
    using ticket s1(4,5) unfolding s'
    by (simp add: update_ticket_ai_status_def get_ticket_by_id_def)
  have turn: "\<forall>xs i c ys. pending_rows s tid = xs @ (i, c) # ys \<longrightarrow>
             ((i, c) \<in> set ws
                \<longleftrightarrow> gated_write cfg (snd (written_rows cfg (disk s) xs)) c \<noteq> None)"
  proof (intro allI impI)
    fix xs i c ys assume e: "pending_rows s tid = xs @ (i, c) # ys"
    with pending_rows_distinct [of s tid] have "distinct (map fst (xs @ (i, c) # ys))" by simp
    from written_at_turn [OF this, of cfg "disk s"] spec e
    show "(i, c) \<in> set ws \<longleftrightarrow> gated_write cfg (snd (written_rows cfg (disk s) xs)) c \<noteq> None"
      by simp
  qed
  show ?thesis
    using pending_rows_set [of s tid] pending_rows_distinct [of s tid]
      pending_rows_newest_first [of s tid] r s1 rw u tk turn
    by simp
qed

theorem ticket_accept_applies_pending_witness:
  "get_ticket_by_id world0 1 = Some ticket1
   \<and> pending_rows world0 1 = [(2, change2), (3, change3), (1, change1)]
   \<and> gated_write cfg0 (disk world0) change2 = None
   \<and> gated_write cfg0 (disk world0) change3 = None
   \<and> fst (api_ticket_ai_action cfg0 world0 1 ''accept'' []) = Inr (AcceptOutcome [''app.py''])
   \<and> read_text (disk (snd (api_ticket_ai_action cfg0 world0 1 ''accept'' [])))
        [''/'', ''srv'', ''shop'', ''app.py''] = Inr ''print(2)''
   \<and> writes (snd (api_ticket_ai_action cfg0 world0 1 ''accept'' []))
       = [([''/'', ''srv'', ''shop'', ''app.py''], ''print(2)'')]
   \<and> map (\<lambda>j. map_option status
                 (proposed_changes (snd (api_ticket_ai_action cfg0 world0 1 ''accept'' [])) j))
         [1, 2, 3]
       = [Some Accepted, Some Pending, Some Pending]
   \<and> map_option (\<lambda>t. (ai_suggestion_status t, ticket_status t))
        (get_ticket_by_id (snd (api_ticket_ai_action cfg0 world0 1 ''accept'' [])) 1)
       = Some (Some Accepted, Resolved)"
proof -
  let ?d = "fs0\<lparr>entries := AList.update [''/'', ''srv'', ''shop'', ''app.py''] (File ''print(2)'')
                               (entries fs0)\<rparr>"
  have h: "get_ticket_by_id world0 (Suc 0) = Some ticket1"
    by (simp add: get_ticket_by_id_def world0_def)
  have dk: "disk world0 = fs0" "writes world0 = []" "now world0 = 7"
    "proposed_changes world0 (Suc 0) = Some change1" "proposed_changes world0 2 = Some change2"
    "proposed_changes world0 3 = Some change3"
    by (simp_all add: world0_def)
  have spec: "written_rows cfg0 (disk world0) (pending_rows world0 (Suc 0)) = ([(Suc 0, change1)], ?d)"
    by (simp add: pending0 dk gated0_1 gated0_2 gated0_3)
  have rd: "read_text ?d [''/'', ''srv'', ''shop'', ''app.py''] = Inr ''print(2)''"
    by (simp add: read_text_def fs0_def path_defs)
  have c: "file_path change1 = ''app.py''" "proposed_content change1 = ''print(2)''"
    "target_of cfg0 change1 = [''/'', ''srv'', ''shop'', ''app.py'']"
    "status change1 = Pending" "status change2 = Pending" "status change3 = Pending"
    by (simp_all add: change1_def change2_def change3_def target_of_def cfg0_def path_join_def Path_def)
  note th = ticket_accept_applies_pending [OF h surjective_pairing spec, of "[]"]
  from th have a: "fst (api_ticket_ai_action cfg0 world0 (Suc 0) ''accept'' [])
                     = Inr (AcceptOutcome [''app.py''])"
    and b: "disk (snd (api_ticket_ai_action cfg0 world0 (Suc 0) ''accept'' [])) = ?d"
    and w: "writes (snd (api_ticket_ai_action cfg0 world0 (Suc 0) ''accept'' []))
              = [([''/'', ''srv'', ''shop'', ''app.py''], ''print(2)'')]"
    and t: "tickets (snd (api_ticket_ai_action cfg0 world0 (Suc 0) ''accept'' []))
              = (tickets world0)(Suc 0 \<mapsto> ticket1\<lparr>ai_suggestion_status := Some Accepted,
                                   ticket_status := Resolved, updated_at := now world0\<rparr>)"
    by (simp_all add: c dk)
  from th have rw: "\<And>j. proposed_changes (snd (api_ticket_ai_action cfg0 world0 (Suc 0) ''accept'' [])) j
                = (if j = Suc 0
                   then map_option (accept_row (now world0)) (proposed_changes world0 j)
                   else proposed_changes world0 j)"
    by simp
  have st: "map (\<lambda>j. map_option status
                 (proposed_changes (snd (api_ticket_ai_action cfg0 world0 (Suc 0) ''accept'' [])) j))
         [Suc 0, 2, 3] = [Some Accepted, Some Pending, Some Pending]"
    by (simp add: rw dk accept_row_def c)
  show ?thesis
    using h pending0 gated0_2 gated0_3 a b w t st rd
    by (simp add: dk get_ticket_by_id_def)
qed

section \<open>The directives of a reply\<close>

lemma split_str_nonempty: "split_str sep cur s \<noteq> []"
  by (induction sep cur s rule: split_str.induct) (subst split_str.simps, auto)

lemma split_str_no_sep: "\<not> sublist sep s \<Longrightarrow> split_str sep cur s = [rev cur @ s]"
proof (induction sep cur s rule: split_str.induct)
  case (1 sep cur s)
  show ?case
  proof (cases s)
    case Nil
    then show ?thesis by (subst split_str.simps) simp
  next
    case (Cons x xs)
    from "1.prems" have np: "\<not> prefix sep s"
      using prefix_imp_sublist by blast
    from "1.prems" Cons have nx: "\<not> sublist sep xs"
      by (simp add: sublist_Cons_right)
    from "1.IH"(2) Cons np nx have "split_str sep (x # cur) xs = [rev (x # cur) @ xs]"
      by simp
    with Cons np show ?thesis
      by (subst split_str.simps) simp
  qed
qed

lemma no_straddle:
  assumes pre: "prefix m (p @ m @ b)" and p: "p \<noteq> []" and m: "m \<noteq> []"
    and uniq: "last m \<notin> set (butlast m)"
  shows "length m \<le> length p"
proof (rule ccontr)
  assume "\<not> length m \<le> length p"
  then have lt: "length p < length m" by simp
  define n where "n = length m - 1"
  define j where "j = n - length p"
  from p have lp: "0 < length p" by simp
  from m have n: "n < length m" "length m = Suc n" by (simp_all add: n_def)
  from lt lp n have j: "j < n" "length p \<le> n" "n - length p = j"
    unfolding j_def by linarith+
  from pre obtain z where "p @ m @ b = m @ z" by (auto simp: prefix_def)
  then have "take (length m) (p @ m @ b) = m" by simp
  then have "m ! n = take (length m) (p @ m @ b) ! n" by simp
  also have "\<dots> = (p @ m @ b) ! n"
    using n(1) by (rule nth_take)
  also have "\<dots> = (m @ b) ! j"
    using j by (simp add: nth_append)
  also have "\<dots> = m ! j"
    using j n by (simp add: nth_append)
  finally have "last m = m ! j"
    using m by (simp add: last_conv_nth n_def)
  moreover have "m ! j = butlast m ! j"
    using j n by (simp add: nth_butlast)
  moreover have "butlast m ! j \<in> set (butlast m)"
    using j n by simp
  ultimately show False using uniq by simp
qed

lemma last_split_marker:
  assumes m: "m \<noteq> []" and uniq: "last m \<notin> set (butlast m)" and body: "\<not> sublist m body"
  shows "last (split_str m cur (pre @ m @ body)) = body"
proof (induction "length pre" arbitrary: pre cur rule: less_induct)
  case less
  show ?case
  proof (cases pre)
    case Nil
    have "split_str m cur (m @ body) = rev cur # split_str m [] body"
      using m by (subst split_str.simps) simp
    with Nil body show ?thesis
      by (simp add: split_str_no_sep)
  next
    case (Cons x pre')
    show ?thesis
    proof (cases "prefix m (pre @ m @ body)")
      case True
      from no_straddle [OF True _ m uniq] Cons have len: "length m \<le> length pre" by simp
      then have d: "drop (length m) (pre @ m @ body) = drop (length m) pre @ m @ body" by simp
      have "split_str m cur (pre @ m @ body)
              = rev cur # split_str m [] (drop (length m) (pre @ m @ body))"
        using True m by (subst split_str.simps) simp
      then have "split_str m cur (pre @ m @ body)
              = rev cur # split_str m [] (drop (length m) pre @ m @ body)"
        by (simp only: d)
      moreover have "last (split_str m [] (drop (length m) pre @ m @ body)) = body"
        using m Cons len by (intro less.hyps) (cases m, auto)
      ultimately show ?thesis
        by (simp add: split_str_nonempty)
    next
      case False
      have "split_str m cur (pre @ m @ body) = split_str m (x # cur) (pre' @ m @ body)"
        using False Cons by (subst split_str.simps) simp
      moreover have "last (split_str m (x # cur) (pre' @ m @ body)) = body"
        using Cons by (intro less.hyps) simp
      ultimately show ?thesis by simp
    qed
  qed
qed

lemma marker_shape:
  "FILES_TO_MODIFY \<noteq> []" "last FILES_TO_MODIFY \<notin> set (butlast FILES_TO_MODIFY)"
  by (simp_all add: FILES_TO_MODIFY_def)

lemma last_split_FILES_TO_MODIFY:
  "\<not> sublist FILES_TO_MODIFY body \<Longrightarrow>
   last (split_str FILES_TO_MODIFY [] (pre @ FILES_TO_MODIFY @ body)) = body"
  by (rule last_split_marker [OF marker_shape])

lemma split_char_nonempty: "split_char d s \<noteq> []"
  by (induction s) (auto split: list.splits)

lemma split_char_no_sep: "d \<notin> set l \<Longrightarrow> split_char d l = [l]"
  by (induction l) auto

lemma split_char_line: "d \<notin> set l \<Longrightarrow> split_char d (l @ d # rest) = l # split_char d rest"
  by (induction l) auto

lemma split_char_snoc:
  "split_char d (s @ [c]) =
     (if c = d then split_char d s @ [[]]
      else butlast (split_char d s) @ [last (split_char d s) @ [c]])"
proof (induction s)
  case Nil
  then show ?case by simp
next
  case (Cons x s)
  obtain w ws where w: "split_char d s = w # ws"
    using split_char_nonempty by (cases "split_char d s") auto
  show ?case
  proof (cases "c = d")
    case True
    with Cons w show ?thesis by simp
  next
    case False
    with Cons w show ?thesis by (cases ws rule: rev_cases) (auto split: list.splits)
  qed
qed

lemma strip_Nil [simp]: "strip [] = []"
  by (simp add: strip_def)

lemma strip_Cons_space: "is_space c \<Longrightarrow> strip (c # l) = strip l"
  by (simp add: strip_def)

lemma dropWhile_append_keep:
  "\<not> P c \<Longrightarrow> dropWhile P (xs @ c # ys) = dropWhile P xs @ c # ys"
  by (induction xs) auto

lemma strip_snoc_space: "is_space c \<Longrightarrow> strip (l @ [c]) = strip l"
proof -
  assume c: "is_space c"
  show ?thesis
  proof (cases "\<forall>x\<in>set l. is_space x")
    case True
    have a: "dropWhile is_space l = []"
      using True by (induction l) auto
    have b: "dropWhile is_space (l @ [c]) = []"
      using True c by (induction l) auto
    show ?thesis by (simp add: strip_def a b)
  next
    case False
    then have "dropWhile is_space (l @ [c]) = dropWhile is_space l @ [c]"
      by (auto simp: dropWhile_append)
    then show ?thesis using c by (simp add: strip_def)
  qed
qed

lemma strip_rstrip: "strip (rev (dropWhile is_space (rev y))) = strip y"
proof (induction y rule: rev_induct)
  case Nil
  then show ?case by simp
next
  case (snoc c u)
  then show ?case by (simp add: strip_snoc_space)
qed

lemma lines_Cons_space:
  assumes "is_space c"
  shows "nonempty_lines (split_char d (c # s)) = nonempty_lines (split_char d s)"
proof (cases "c = d")
  case True
  then show ?thesis by simp
next
  case False
  obtain w ws where w: "split_char d s = w # ws"
    using split_char_nonempty by (cases "split_char d s") auto
  with False assms show ?thesis by (simp add: strip_Cons_space)
qed

lemma lines_snoc_space:
  assumes "is_space c"
  shows "nonempty_lines (split_char d (s @ [c])) = nonempty_lines (split_char d s)"
proof -
  obtain ws w where w: "split_char d s = ws @ [w]"
    using split_char_nonempty by (cases "split_char d s" rule: rev_cases) auto
  with assms show ?thesis
    by (simp add: split_char_snoc strip_snoc_space)
qed

lemma lines_lstrip:
  "nonempty_lines (split_char d (dropWhile is_space s)) = nonempty_lines (split_char d s)"
proof (induction s)
  case Nil
  then show ?case by simp
next
  case (Cons c s)
  show ?case
  proof (cases "is_space c")
    case True
    then have "dropWhile is_space (c # s) = dropWhile is_space s" by simp
    then show ?thesis
      by (simp only: Cons.IH lines_Cons_space [OF True])
  next
    case False
    then have "dropWhile is_space (c # s) = c # s" by simp
    then show ?thesis by (simp only:)
  qed
qed

lemma lines_rstrip:
  "nonempty_lines (split_char d (rev (dropWhile is_space (rev s)))) = nonempty_lines (split_char d s)"
proof (induction s rule: rev_induct)
  case Nil
  then show ?case by simp
next
  case (snoc c s)
  show ?case
  proof (cases "is_space c")
    case True
    then have "rev (dropWhile is_space (rev (s @ [c]))) = rev (dropWhile is_space (rev s))"
      by simp
    then show ?thesis
      by (simp only: snoc.IH lines_snoc_space [OF True])
  next
    case False
    then have "rev (dropWhile is_space (rev (s @ [c]))) = s @ [c]" by simp
    then show ?thesis by (simp only:)
  qed
qed

lemma lines_strip: "nonempty_lines (split_char d (strip s)) = nonempty_lines (split_char d s)"
proof -
  have e: "strip s = rev (dropWhile is_space (rev (dropWhile is_space s)))"
    by (simp add: strip_def)
  show ?thesis
    by (simp only: e lines_rstrip lines_lstrip)
qed

lemma directive_of_lines_strip:
  "List.map_filter (directive_of_line t) (split_char d (strip s))
     = List.map_filter (directive_of_line t) (split_char d s)"
proof -
  define F where "F = (\<lambda>line. if prefix ''- '' line \<and> CHR '':'' \<in> set line
         then (case split_once CHR '':'' (drop 2 line) of
                 [] \<Rightarrow> None
               | [p] \<Rightarrow> Some (strip p, ''Apply fix for: '' @ t)
               | p # q # rest \<Rightarrow> Some (strip p, strip q))
         else None)"
  have D: "\<And>l. directive_of_line t l = F (strip l)"
    by (simp add: directive_of_line_def F_def Let_def)
  have F0: "F [] = None" by (simp add: F_def)
  have red: "List.map_filter (directive_of_line t) xs
               = List.map_filter F (nonempty_lines xs)" for xs
    by (induction xs) (auto simp: List.map_filter_simps D F0 split: option.splits)
  show ?thesis by (simp only: red lines_strip)
qed

lemma extract_lines:
  assumes "\<not> sublist FILES_TO_MODIFY body"
  shows "extract_file_directives t (pre @ FILES_TO_MODIFY @ body)
           = List.map_filter (directive_of_line t) (split_char CHR 0x0A body)"
proof -
  have "sublist FILES_TO_MODIFY (pre @ FILES_TO_MODIFY @ body)"
    by (simp add: sublist_appendI)
  then show ?thesis
    by (simp add: extract_file_directives_def last_split_FILES_TO_MODIFY [OF assms]
        directive_of_lines_strip)
qed

lemma space_chars:
  "is_space CHR '' ''" "\<not> is_space CHR ''-''" "\<not> is_space CHR '':''" "is_space CHR 0x0A"
  by (simp_all add: is_space_def)

lemma strip_well_formed_line:
  "strip (''- '' @ p @ '': '' @ x)
     = ''- '' @ p @ '':'' @ rev (dropWhile is_space (rev (CHR '' '' # x)))"
proof -
  have c: "dropWhile is_space (rev x @ CHR '' '' # CHR '':'' # rev p @ '' -'')
          = dropWhile is_space (rev x @ '' '') @ CHR '':'' # rev p @ '' -''"
    using dropWhile_append_keep [of is_space "CHR '':''" "rev x @ '' ''" "rev p @ '' -''"]
    by (simp add: space_chars)
  show ?thesis
    by (simp add: strip_def space_chars c)
qed

lemma split_once_first:
  "d \<notin> set p \<Longrightarrow> split_once d (p @ d # r) = [p, r]"
  by (induction p) (auto simp: split_once_def)

lemma directive_of_well_formed_line:
  assumes "CHR '':'' \<notin> set p"
  shows "directive_of_line t (''- '' @ p @ '': '' @ x) = Some (strip p, strip x)"
proof -
  define R where "R = rev (dropWhile is_space (rev (CHR '' '' # x)))"
  define L where "L = ''- '' @ p @ '': '' @ x"
  have line: "strip L = CHR ''-'' # CHR '' '' # p @ CHR '':'' # R"
    unfolding R_def L_def strip_well_formed_line by simp
  have R: "strip R = strip x"
    unfolding R_def by (simp only: strip_rstrip strip_Cons_space [OF space_chars(1)])
  have so: "split_once CHR '':'' (p @ CHR '':'' # R) = [p, R]"
    by (rule split_once_first [OF assms])
  have "directive_of_line t L = Some (strip p, strip x)"
    by (simp add: directive_of_line_def Let_def line so R)
  then show ?thesis
    unfolding L_def .
qed

lemma directive_of_skipped_line:
  "\<not> (prefix ''- '' (strip l) \<and> CHR '':'' \<in> set (strip l)) \<Longrightarrow> directive_of_line t l = None"
  by (auto simp: directive_of_line_def Let_def)

lemma split_char_join:
  "ls \<noteq> [] \<Longrightarrow> \<forall>l\<in>set ls. d \<notin> set l \<Longrightarrow> split_char d (join_str [d] ls) = ls"
proof (induction ls)
  case Nil
  then show ?case by simp
next
  case (Cons l ls)
  show ?case
  proof (cases ls)
    case Nil
    with Cons.prems show ?thesis by (simp add: split_char_no_sep)
  next
    case (Cons l' ls')
    with Cons.prems Cons.IH have "split_char d (join_str [d] ls) = ls" by simp
    moreover have "join_str [d] (l # ls) = l @ d # join_str [d] ls"
      using Cons by simp
    moreover have "d \<notin> set l" using Cons.prems by simp
    ultimately show ?thesis by (simp add: split_char_line)
  qed
qed

lemma map_filter_append:
  "List.map_filter f (xs @ ys) = List.map_filter f xs @ List.map_filter f ys"
  by (simp add: List.map_filter_def)

lemma map_filter_skipped: "\<forall>l\<in>set js. f l = None \<Longrightarrow> List.map_filter f js = []"
  by (induction js) (auto simp: List.map_filter_simps)

lemma strip_plain:
  "strip [] = []" "strip ''(see above)'' = ''(see above)''"
  "strip ''app.py'' = ''app.py''" "strip ''util.py'' = ''util.py''" "strip ''ghost.py'' = ''ghost.py''"
  "strip ''print two'' = ''print two''" "strip ''drop debug'' = ''drop debug''"
  "strip ''first'' = ''first''" "strip ''second'' = ''second''" "strip ''nothing'' = ''nothing''"
  by (simp_all add: strip_def is_space_def)

text \<open>
  C7. A reply that holds the marker once, followed by lines among which exactly two are well
  formed (\<open>- path: text\<close>, no colon in the path), gives exactly those two directives, in the
  order of the reply, whatever stands before the marker; the lines before, between and after them
  that are not of the shape of a directive are skipped. A reply without the marker gives no
  directive, and the route stores the suggestion and creates no proposed change.
\<close>

theorem extract_two_directives:
  assumes lines: "\<forall>l\<in>set (bs @ l1 # js @ l2 # as). CHR 0x0A \<notin> set l"
    and l1: "l1 = ''- '' @ p1 @ '': '' @ x1" "CHR '':'' \<notin> set p1"
    and l2: "l2 = ''- '' @ p2 @ '': '' @ x2" "CHR '':'' \<notin> set p2"
    and skipped: "\<forall>l\<in>set (bs @ js @ as). \<not> (prefix ''- '' (strip l) \<and> CHR '':'' \<in> set (strip l))"
    and once: "\<not> sublist FILES_TO_MODIFY (join_str [CHR 0x0A] (bs @ l1 # js @ l2 # as))"
  shows "extract_file_directives t
           (pre @ FILES_TO_MODIFY @ join_str [CHR 0x0A] (bs @ l1 # js @ l2 # as))
         = [(strip p1, strip x1), (strip p2, strip x2)]
       \<and> (\<not> sublist FILES_TO_MODIFY other \<longrightarrow>
            extract_file_directives t other = []
            \<and> store_and_propose cfg s tid tk other files
                = ((other, files, []), update_ticket_ai_suggestion s tid other files))"
proof -
  have sk: "\<forall>l\<in>set bs. directive_of_line t l = None"
    "\<forall>l\<in>set js. directive_of_line t l = None" "\<forall>l\<in>set as. directive_of_line t l = None"
    using skipped by (auto intro: directive_of_skipped_line)
  have d: "directive_of_line t l1 = Some (strip p1, strip x1)"
    "directive_of_line t l2 = Some (strip p2, strip x2)"
    unfolding l1(1) l2(1)
    by (rule directive_of_well_formed_line [OF l1(2)], rule directive_of_well_formed_line [OF l2(2)])
  have "split_char CHR 0x0A (join_str [CHR 0x0A] (bs @ l1 # js @ l2 # as)) = bs @ l1 # js @ l2 # as"
    by (rule split_char_join) (use lines in simp_all)
  with extract_lines [OF once, of t pre]
  have "extract_file_directives t
           (pre @ FILES_TO_MODIFY @ join_str [CHR 0x0A] (bs @ l1 # js @ l2 # as))
        = List.map_filter (directive_of_line t) (bs @ l1 # js @ l2 # as)"
    by simp
  also have "\<dots> = [(strip p1, strip x1), (strip p2, strip x2)]"
    using sk d
    by (simp add: map_filter_append map_filter_skipped List.map_filter_simps)
  finally have two: "extract_file_directives t
           (pre @ FILES_TO_MODIFY @ join_str [CHR 0x0A] (bs @ l1 # js @ l2 # as))
         = [(strip p1, strip x1), (strip p2, strip x2)]" .
  have none: "\<not> sublist FILES_TO_MODIFY other \<longrightarrow>
            extract_file_directives t other = []
            \<and> store_and_propose cfg s tid tk other files
                = ((other, files, []), update_ticket_ai_suggestion s tid other files)"
    by (simp add: extract_file_directives_def store_and_propose_def)
  from two none show ?thesis by blast
qed

theorem extract_two_directives_witness:
  "extract_file_directives ''Crash'' reply_two
     = [(''app.py'', ''print two''), (''util.py'', ''drop debug'')]
   \<and> \<not> sublist FILES_TO_MODIFY ''No files need changes.''
   \<and> extract_file_directives ''Crash'' ''No files need changes.'' = []"
proof -
  let ?bs = "[[]] :: string list" and ?js = "[''(see above)'']" and ?as = "[] :: string list"
  let ?l1 = "''- '' @ ''app.py'' @ '': '' @ ''print two''"
  let ?l2 = "''- '' @ ''util.py'' @ '': '' @ ''drop debug''"
  have lines: "\<forall>l\<in>set (?bs @ ?l1 # ?js @ ?l2 # ?as). CHR 0x0A \<notin> set l" by simp
  have skipped: "\<forall>l\<in>set (?bs @ ?js @ ?as).
                   \<not> (prefix ''- '' (strip l) \<and> CHR '':'' \<in> set (strip l))"
    by (simp add: strip_plain)
  have once: "\<not> sublist FILES_TO_MODIFY (join_str [CHR 0x0A] (?bs @ ?l1 # ?js @ ?l2 # ?as))"
    by (simp add: FILES_TO_MODIFY_def sublist_Cons_right)
  have other: "\<not> sublist FILES_TO_MODIFY ''No files need changes.''"
    by (simp add: FILES_TO_MODIFY_def sublist_Cons_right)
  have shape: "reply_two = (''Root cause: a wrong constant.'' @ [CHR 0x0A]) @ FILES_TO_MODIFY
                @ join_str [CHR 0x0A] (?bs @ ?l1 # ?js @ ?l2 # ?as)"
    by (simp add: reply_two_def FILES_TO_MODIFY_def)
  from extract_two_directives [OF lines refl _ refl _ skipped once,
      of "''Crash''" "''Root cause: a wrong constant.'' @ [CHR 0x0A]" "''No files need changes.''"]
    other
  show ?thesis
    unfolding shape by (simp add: strip_plain)
qed

lemma directive_lines_dup:
  "directive_of_line t ''- app.py: first'' = Some (''app.py'', ''first'')"
  "directive_of_line t ''- ghost.py: nothing'' = Some (''ghost.py'', ''nothing'')"
  "directive_of_line t ''- app.py: second'' = Some (''app.py'', ''second'')"
  "directive_of_line t [] = None"
  using directive_of_well_formed_line [of "''app.py''" t "''first''"]
    directive_of_well_formed_line [of "''ghost.py''" t "''nothing''"]
    directive_of_well_formed_line [of "''app.py''" t "''second''"]
    directive_of_skipped_line [of "[]" t]
  by (simp_all add: strip_plain)

lemma extract_reply_dup:
  "extract_file_directives ''Crash'' reply_dup
     = [(''app.py'', ''first''), (''ghost.py'', ''nothing''), (''app.py'', ''second'')]"
proof -
  let ?body = "[CHR 0x0A] @ ''- app.py: first'' @ [CHR 0x0A] @ ''- ghost.py: nothing'' @ [CHR 0x0A]
     @ ''- app.py: second''"
  have once: "\<not> sublist FILES_TO_MODIFY ?body"
    by (simp add: FILES_TO_MODIFY_def sublist_Cons_right)
  have shape: "reply_dup = (''Plan.'' @ [CHR 0x0A]) @ FILES_TO_MODIFY @ ?body"
    by (simp add: reply_dup_def FILES_TO_MODIFY_def)
  have "split_char CHR 0x0A ?body
          = [[], ''- app.py: first'', ''- ghost.py: nothing'', ''- app.py: second'']"
    by simp
  with extract_lines [OF once, of "''Crash''" "''Plan.'' @ [CHR 0x0A]"]
  show ?thesis
    unfolding shape by (simp add: List.map_filter_simps directive_lines_dup)
qed

section \<open>Resolving a ticket\<close>

lemma same_tables_refl [simp]: "same_tables s s"
  by (simp add: same_tables_def)

lemma same_tables_trans: "same_tables s s1 \<Longrightarrow> same_tables s1 s2 \<Longrightarrow> same_tables s s2"
  by (simp add: same_tables_def)

lemma messages_create_same: "messages_create s = (g, s1) \<Longrightarrow>
   g = replies s (calls s) \<and> s1 = s\<lparr>calls := Suc (calls s)\<rparr>"
  by (auto simp: messages_create_def)

lemma identify_cases:
  assumes "identify_relevant_files cfg s = (rel, s1)"
  shows "s1 = s \<or> s1 = s\<lparr>calls := Suc (calls s)\<rparr>"
  using assms
  by (auto simp: identify_relevant_files_def messages_create_def
      split: if_splits gen_result.splits option.splits)

lemma identify_same: "identify_relevant_files cfg s = (rel, s1) \<Longrightarrow> same_tables s s1"
  using identify_cases [of cfg s rel s1] by (auto simp: same_tables_def)

lemma identify_selected:
  assumes "get_all_files_recursive cfg (disk s) \<noteq> []"
    and "replies s (calls s) = GenOk text"
    and "first_bracketed (strip text) = Some m"
    and "json_loads cfg m = Some items"
  shows "identify_relevant_files cfg s = (items, s\<lparr>calls := Suc (calls s)\<rparr>)"
  using assms by (simp add: identify_relevant_files_def messages_create_def)

lemma identify_generation_failed:
  assumes "replies s (calls s) = GenFail e"
  shows "fst (identify_relevant_files cfg s) = []"
  using assms by (simp add: identify_relevant_files_def messages_create_def)

lemma two_step_error:
  assumes "process_task_two_step cfg s task = (Inl e, s1)"
  shows "same_tables s s1"
proof -
  obtain rel s0 where i: "identify_relevant_files cfg s = (rel, s0)" by fastforce
  have s0: "same_tables s s0" by (rule identify_same [OF i])
  have "s1 = s0 \<or> s1 = s0\<lparr>calls := Suc (calls s0)\<rparr>"
    using assms i
    by (auto simp: process_task_two_step_def messages_create_def Let_def
        split: if_splits prod.splits gen_result.splits)
  then have "same_tables s0 s1" by (auto simp: same_tables_def)
  with s0 show ?thesis by (rule same_tables_trans)
qed

lemma two_step_no_files:
  assumes "fst (identify_relevant_files cfg s) = []"
  shows "fst (process_task_two_step cfg s task) = Inl ''No relevant files found for this task''"
proof -
  obtain rel s0 where i: "identify_relevant_files cfg s = (rel, s0)" by fastforce
  with assms have "rel = []" by simp
  with i show ?thesis by (simp add: process_task_two_step_def)
qed

lemma two_step_generation_failed:
  assumes "identify_relevant_files cfg s = (rel, s0)" and "rel \<noteq> []"
    and "fst (read_relevant cfg (disk s0) rel [] 0) \<noteq> []"
    and "replies s0 (calls s0) = GenFail e"
  shows "fst (process_task_two_step cfg s task) = Inl e"
proof -
  obtain fc total where r: "read_relevant cfg (disk s0) rel [] 0 = (fc, total)" by fastforce
  with assms(3) have "fc \<noteq> []" by simp
  with assms r show ?thesis
    by (simp add: process_task_two_step_def messages_create_def)
qed

lemma two_step_success:
  assumes "process_task_two_step cfg s task = (Inr res, s1)"
  shows "\<exists>rel s0. identify_relevant_files cfg s = (rel, s0) \<and> rel \<noteq> [] \<and>
           files_analyzed res = map fst (fst (read_relevant cfg (disk s) rel [] 0)) \<and>
           files_analyzed res \<noteq> [] \<and>
           replies s (calls s0) = GenOk (response res) \<and> same_tables s s1 \<and>
           calls s1 = Suc (calls s0)"
proof -
  obtain rel s0 where i: "identify_relevant_files cfg s = (rel, s0)" by fastforce
  have s0: "same_tables s s0" by (rule identify_same [OF i])
  then have d: "disk s0 = disk s" "replies s0 = replies s" by (simp_all add: same_tables_def)
  from assms i have "rel \<noteq> [] \<and>
           files_analyzed res = map fst (fst (read_relevant cfg (disk s0) rel [] 0)) \<and>
           files_analyzed res \<noteq> [] \<and>
           replies s0 (calls s0) = GenOk (response res) \<and> same_tables s0 s1 \<and>
           calls s1 = Suc (calls s0)"
    by (auto simp: process_task_two_step_def messages_create_def Let_def same_tables_def
        record_change_def save_ai_context_def
        split: if_splits prod.splits gen_result.splits)
  with i s0 d show ?thesis
    by (auto intro: same_tables_trans)
qed

lemma two_step_success_intro:
  assumes "identify_relevant_files cfg s = (rel, s0)" and "rel \<noteq> []"
    and "fst (read_relevant cfg (disk s0) rel [] 0) \<noteq> []"
    and "replies s0 (calls s0) = GenOk resp"
  shows "\<exists>res s1. process_task_two_step cfg s task = (Inr res, s1) \<and> response res = resp"
proof -
  obtain fc total where r: "read_relevant cfg (disk s0) rel [] 0 = (fc, total)" by fastforce
  with assms(3) have "fc \<noteq> []" by simp
  with assms r show ?thesis
    by (simp add: process_task_two_step_def messages_create_def Let_def)
qed

lemma read_relevant_keys:
  "set (map fst (fst (read_relevant cfg fs items acc n)))
     = set (map fst acc) \<union> set (filter (readable cfg fs) (selected_paths items))"
  by (induction cfg fs items acc n rule: read_relevant.induct)
    (auto simp: selected_paths_def readable_def update_keys split: sum.splits)

lemma read_relevant_distinct:
  "distinct (map fst acc) \<Longrightarrow> distinct (map fst (fst (read_relevant cfg fs items acc n)))"
  by (induction cfg fs items acc n rule: read_relevant.induct)
    (auto simp: distinct_update split: sum.splits)

lemma propose_file_change_effect:
  assumes "propose_file_change cfg s fpath instr tid = (r, s')"
  shows "tickets s' = tickets s \<and> disk s' = disk s \<and> writes s' = writes s \<and> now s' = now s \<and>
     (case r of
        Inl e \<Rightarrow> proposed_changes s' = proposed_changes s \<and> next_change_id s' = next_change_id s
      | Inr cid \<Rightarrow> cid = next_change_id s \<and> next_change_id s' = Suc (next_change_id s) \<and>
           (\<exists>c. proposed_changes s' = (proposed_changes s)(cid \<mapsto> c) \<and> file_path c = fpath \<and>
                pc_ticket_id c = tid \<and> status c = Pending \<and> change_description c = instr))"
  using assms
  by (auto simp: propose_file_change_def messages_create_def create_proposed_change_def Let_def
      split: sum.splits gen_result.splits prod.splits)

lemma propose_directives_rows:
  assumes "propose_directives cfg s ttl tid files ds = (proposed, s')"
  shows "tickets s' = tickets s \<and> disk s' = disk s \<and> writes s' = writes s \<and> now s' = now s \<and>
     next_change_id s \<le> next_change_id s' \<and>
     (\<forall>i. i < next_change_id s \<or> next_change_id s' \<le> i \<longrightarrow>
          proposed_changes s' i = proposed_changes s i) \<and>
     (\<forall>i. next_change_id s \<le> i \<and> i < next_change_id s' \<longrightarrow>
          (\<exists>c. proposed_changes s' i = Some c \<and> file_path c \<in> set files \<and>
               file_path c \<in> fst ` set ds \<and> pc_ticket_id c = Some tid \<and> status c = Pending)) \<and>
     map snd proposed = [next_change_id s ..< next_change_id s']"
  using assms
proof (induction ds arbitrary: s proposed s')
  case Nil
  then show ?case by simp
next
  case (Cons d ds)
  obtain fpath instr where d: "d = (fpath, instr)" by (cases d)
  show ?case
  proof (cases "fpath \<in> set files")
    case False
    with Cons.prems d have "propose_directives cfg s ttl tid files ds = (proposed, s')" by simp
    from Cons.IH [OF this] show ?thesis by simp blast
  next
    case True
    obtain r s1 where p: "propose_file_change cfg s fpath (ttl @ '': '' @ instr) (Some tid) = (r, s1)"
      by fastforce
    note eff = propose_file_change_effect [OF p]
    show ?thesis
    proof (cases r)
      case (Inl e)
      with Cons.prems d True p have "propose_directives cfg s1 ttl tid files ds = (proposed, s')"
        by simp
      from Cons.IH [OF this] eff Inl show ?thesis by simp blast
    next
      case (Inr cid)
      obtain rest s2 where rest: "propose_directives cfg s1 ttl tid files ds = (rest, s2)"
        by fastforce
      from Cons.prems d True p Inr rest have pr: "proposed = (fpath, cid) # rest" "s' = s2"
        by simp_all
      from eff Inr obtain c where cid: "cid = next_change_id s"
        and nx: "next_change_id s1 = Suc (next_change_id s)"
        and c: "proposed_changes s1 = (proposed_changes s)(cid \<mapsto> c)" "file_path c = fpath"
               "pc_ticket_id c = Some tid" "status c = Pending"
        and fr: "tickets s1 = tickets s" "disk s1 = disk s" "writes s1 = writes s" "now s1 = now s"
        by auto
      note ih = Cons.IH [OF rest]
      from ih have le: "next_change_id s1 \<le> next_change_id s2" by simp
      have old: "\<forall>i. i < next_change_id s \<or> next_change_id s2 \<le> i \<longrightarrow>
          proposed_changes s2 i = proposed_changes s i"
        using ih c(1) cid nx le by auto
      have new: "\<forall>i. next_change_id s \<le> i \<and> i < next_change_id s2 \<longrightarrow>
          (\<exists>c. proposed_changes s2 i = Some c \<and> file_path c \<in> set files \<and>
               file_path c \<in> fst ` set (d # ds) \<and> pc_ticket_id c = Some tid \<and> status c = Pending)"
      proof (intro allI impI)
        fix i assume i: "next_change_id s \<le> i \<and> i < next_change_id s2"
        show "\<exists>c. proposed_changes s2 i = Some c \<and> file_path c \<in> set files \<and>
               file_path c \<in> fst ` set (d # ds) \<and> pc_ticket_id c = Some tid \<and> status c = Pending"
        proof (cases "i = next_change_id s")
          case True
          with ih nx have "proposed_changes s2 i = proposed_changes s1 i" by simp
          with True c cid d \<open>fpath \<in> set files\<close> show ?thesis by auto
        next
          case False
          with i nx have "next_change_id s1 \<le> i \<and> i < next_change_id s2" by simp
          with ih show ?thesis by simp blast
        qed
      qed
      have ids: "map snd proposed = [next_change_id s ..< next_change_id s2]"
        using ih pr cid nx le by (simp add: upt_conv_Cons)
      show ?thesis
        using ih fr le nx old new ids pr by simp
    qed
  qed
qed

lemma propose_unreadable:
  "\<not> readable cfg (disk s) p \<Longrightarrow> \<exists>e. propose_file_change cfg s p instr tid = (Inl e, s)"
  by (auto simp: propose_file_change_def readable_def split: sum.splits)

lemma propose_generation_failed:
  "readable cfg (disk s) p \<Longrightarrow> replies s (calls s) = GenFail e \<Longrightarrow>
   propose_file_change cfg s p instr tid = (Inl e, s\<lparr>calls := Suc (calls s)\<rparr>)"
  by (auto simp: propose_file_change_def readable_def messages_create_def split: sum.splits)

lemma propose_ok:
  "readable cfg (disk s) p \<Longrightarrow> replies s (calls s) = GenOk proposed \<Longrightarrow>
   propose_file_change cfg s p (ttl @ '': '' @ instr) (Some tid)
     = (Inr (next_change_id s),
        s\<lparr>calls := Suc (calls s),
          proposed_changes := (proposed_changes s)
             (next_change_id s \<mapsto> proposed_row cfg (disk s) (now s) ttl tid p instr proposed),
          next_change_id := Suc (next_change_id s)\<rparr>)"
  by (auto simp: propose_file_change_def readable_def messages_create_def
      create_proposed_change_def proposed_row_def Let_def split: sum.splits)

lemma propose_directives_exact:
  assumes "propose_directives cfg s ttl tid files ds = (proposed, s')"
  shows "map (proposed_changes s') [next_change_id s ..< next_change_id s']
           = map Some (rows_to_create cfg (disk s) (replies s) (calls s) (now s) ttl tid files ds)
       \<and> next_change_id s'
           = next_change_id s
             + length (rows_to_create cfg (disk s) (replies s) (calls s) (now s) ttl tid files ds)
       \<and> map fst proposed
           = map file_path (rows_to_create cfg (disk s) (replies s) (calls s) (now s) ttl tid files ds)"
  using assms
proof (induction ds arbitrary: s proposed s')
  case Nil
  then show ?case by simp
next
  case (Cons x ds)
  obtain p instr where x: "x = (p, instr)" by (cases x)
  show ?case
  proof (cases "p \<in> set files")
    case False
    with Cons.prems x have "propose_directives cfg s ttl tid files ds = (proposed, s')" by simp
    from Cons.IH [OF this] have
      "map (proposed_changes s') [next_change_id s ..< next_change_id s']
           = map Some (rows_to_create cfg (disk s) (replies s) (calls s) (now s) ttl tid files ds)"
      "next_change_id s'
           = next_change_id s
             + length (rows_to_create cfg (disk s) (replies s) (calls s) (now s) ttl tid files ds)"
      "map fst proposed
           = map file_path (rows_to_create cfg (disk s) (replies s) (calls s) (now s) ttl tid files ds)"
      by blast+
    moreover have "rows_to_create cfg (disk s) (replies s) (calls s) (now s) ttl tid files (x # ds)
       = rows_to_create cfg (disk s) (replies s) (calls s) (now s) ttl tid files ds"
      using False x by simp
    ultimately show ?thesis by (simp only: simp_thms)
  next
    case True
    show ?thesis
    proof (cases "readable cfg (disk s) p")
      case False
      from propose_unreadable [OF False] obtain e where
        "propose_file_change cfg s p (ttl @ '': '' @ instr) (Some tid) = (Inl e, s)" by blast
      with Cons.prems x True have "propose_directives cfg s ttl tid files ds = (proposed, s')"
        by simp
      from Cons.IH [OF this] have
        "map (proposed_changes s') [next_change_id s ..< next_change_id s']
           = map Some (rows_to_create cfg (disk s) (replies s) (calls s) (now s) ttl tid files ds)"
        "next_change_id s'
           = next_change_id s
             + length (rows_to_create cfg (disk s) (replies s) (calls s) (now s) ttl tid files ds)"
        "map fst proposed
           = map file_path (rows_to_create cfg (disk s) (replies s) (calls s) (now s) ttl tid files ds)"
        by blast+
      moreover have "rows_to_create cfg (disk s) (replies s) (calls s) (now s) ttl tid files (x # ds)
         = rows_to_create cfg (disk s) (replies s) (calls s) (now s) ttl tid files ds"
        using False x by simp
      ultimately show ?thesis by (simp only: simp_thms)
    next
      case r: True
      show ?thesis
      proof (cases "replies s (calls s)")
        case (GenFail e)
        define s1 where "s1 = s\<lparr>calls := Suc (calls s)\<rparr>"
        from propose_generation_failed [OF r GenFail]
        have "propose_file_change cfg s p (ttl @ '': '' @ instr) (Some tid) = (Inl e, s1)"
          by (simp add: s1_def)
        with Cons.prems x True have "propose_directives cfg s1 ttl tid files ds = (proposed, s')"
          by simp
        note ih = Cons.IH [OF this]
        have "map (proposed_changes s') [next_change_id s ..< next_change_id s']
             = map Some (rows_to_create cfg (disk s) (replies s) (Suc (calls s)) (now s) ttl tid files ds)"
          using ih [THEN conjunct1] by (simp add: s1_def)
        moreover have "next_change_id s'
             = next_change_id s
               + length (rows_to_create cfg (disk s) (replies s) (Suc (calls s)) (now s) ttl tid files ds)"
          using ih [THEN conjunct2, THEN conjunct1] by (simp add: s1_def)
        moreover have "map fst proposed
             = map file_path (rows_to_create cfg (disk s) (replies s) (Suc (calls s)) (now s) ttl tid files ds)"
          using ih [THEN conjunct2, THEN conjunct2] by (simp add: s1_def)
        moreover have "rows_to_create cfg (disk s) (replies s) (calls s) (now s) ttl tid files (x # ds)
           = rows_to_create cfg (disk s) (replies s) (Suc (calls s)) (now s) ttl tid files ds"
          using r True x GenFail by simp
        ultimately show ?thesis by (simp only: simp_thms)
      next
        case (GenOk body)
        define row where "row = proposed_row cfg (disk s) (now s) ttl tid p instr body"
        define s1 where "s1 = s\<lparr>calls := Suc (calls s),
          proposed_changes := (proposed_changes s)(next_change_id s \<mapsto> row),
          next_change_id := Suc (next_change_id s)\<rparr>"
        from propose_ok [OF r GenOk]
        have pf: "propose_file_change cfg s p (ttl @ '': '' @ instr) (Some tid)
                = (Inr (next_change_id s), s1)"
          by (simp add: s1_def row_def)
        obtain rest s2 where rest: "propose_directives cfg s1 ttl tid files ds = (rest, s2)"
          by fastforce
        from Cons.prems x True pf rest have pr: "proposed = (p, next_change_id s) # rest" "s' = s2"
          by simp_all
        have f1: "disk s1 = disk s" "replies s1 = replies s" "calls s1 = Suc (calls s)"
          "now s1 = now s" "next_change_id s1 = Suc (next_change_id s)"
          "proposed_changes s1 (next_change_id s) = Some row"
          by (simp_all add: s1_def)
        note ih = Cons.IH [OF rest]
        from propose_directives_rows [OF rest]
        have old: "proposed_changes s2 (next_change_id s) = proposed_changes s1 (next_change_id s)"
          by (simp add: f1)
        let ?rows = "rows_to_create cfg (disk s) (replies s) (Suc (calls s)) (now s) ttl tid files ds"
        have n2: "next_change_id s2 = Suc (next_change_id s) + length ?rows"
          using ih [THEN conjunct2, THEN conjunct1] by (simp add: f1)
        have m2: "map (proposed_changes s2) [Suc (next_change_id s) ..< next_change_id s2]
                     = map Some ?rows"
          using ih [THEN conjunct1] by (simp add: f1)
        have p2: "map fst rest = map file_path ?rows"
          using ih [THEN conjunct2, THEN conjunct2] by (simp add: f1)
        have lt: "next_change_id s < next_change_id s2" using n2 by simp
        have "map (proposed_changes s2) [next_change_id s ..< next_change_id s2]
                = Some row # map Some ?rows"
          using m2 old f1(6) lt by (simp add: upt_conv_Cons)
        moreover have "file_path row = p" by (simp add: row_def proposed_row_def)
        moreover have "rows_to_create cfg (disk s) (replies s) (calls s) (now s) ttl tid files (x # ds)
           = row # ?rows"
          using r True x GenOk by (simp add: row_def)
        ultimately show ?thesis
          using n2 p2 pr by simp
      qed
    qed
  qed
qed

lemma ai_resolve_error:
  assumes "get_ticket_by_id s tid = Some t"
    and "process_task_two_step cfg s (ticket_task s t) = (Inl e, s1)" and "e \<noteq> []"
  shows "api_ticket_ai_resolve cfg s tid = (Inl e, s1)"
  using assms by (simp add: api_ticket_ai_resolve_def)

lemma ai_resolve_after_two_step:
  assumes "get_ticket_by_id s tid = Some t"
    and "process_task_two_step cfg s (ticket_task s t) = (Inr res, s1)"
  shows "api_ticket_ai_resolve cfg s tid
           = (Inr (response res, files_analyzed res,
                   fst (propose_directives cfg
                          (update_ticket_ai_suggestion s1 tid (response res) (files_analyzed res))
                          (title t) tid (files_analyzed res)
                          (extract_file_directives (title t) (response res)))),
              snd (propose_directives cfg
                          (update_ticket_ai_suggestion s1 tid (response res) (files_analyzed res))
                          (title t) tid (files_analyzed res)
                          (extract_file_directives (title t) (response res))))"
  using assms
  by (simp add: api_ticket_ai_resolve_def store_and_propose_def Let_def split: prod.splits)

lemma remdups_drop: "x \<in> set ys \<Longrightarrow> remdups (xs @ x # ys) = remdups (xs @ ys)"
  by (induction xs) auto

lemma first_occurrences_again:
  "p \<in> set ks \<Longrightarrow> first_occurrences (ks @ p # rest) = first_occurrences (ks @ rest)"
  by (simp add: first_occurrences_def remdups_drop)

lemma first_occurrences_distinct: "distinct ks \<Longrightarrow> first_occurrences ks = ks"
  by (simp add: first_occurrences_def distinct_remdups_id)

lemma read_relevant_order:
  "distinct (map fst acc) \<Longrightarrow>
   map fst (fst (read_relevant cfg fs items acc n))
     = first_occurrences (map fst acc @ filter (readable cfg fs) (selected_paths items))"
proof (induction cfg fs items acc n rule: read_relevant.induct)
  case (1 cfg fs file_contents total_size)
  then show ?case by (simp add: selected_paths_def first_occurrences_distinct)
next
  case (2 cfg fs items file_contents total_size)
  then show ?case by (simp add: selected_paths_def)
next
  case (3 cfg fs p items file_contents total_size)
  show ?case
  proof (cases "read_file cfg fs p")
    case (Inl e)
    with 3 show ?thesis by (simp add: selected_paths_def readable_def)
  next
    case (Inr fd)
    have d: "distinct (map fst (AList.update p (fd_content fd) file_contents))"
      using "3.prems" by (simp add: distinct_update)
    have r: "readable cfg fs p" using Inr by (simp add: readable_def)
    have sp: "selected_paths (JStr p # items) = p # selected_paths items"
      by (simp add: selected_paths_def)
    show ?thesis
    proof (cases "p \<in> set (map fst file_contents)")
      case True
      then have "map fst (AList.update p (fd_content fd) file_contents) = map fst file_contents"
        by (simp add: update_keys)
      with "3.IH"(2) [OF Inr d] Inr r sp True show ?thesis
        by (simp add: first_occurrences_again)
    next
      case False
      then have "map fst (AList.update p (fd_content fd) file_contents)
                   = map fst file_contents @ [p]"
        by (simp add: update_keys)
      with "3.IH"(2) [OF Inr d] Inr r sp show ?thesis
        by simp
    qed
  qed
qed

lemma rows_to_create_rows:
  "c \<in> set (rows_to_create cfg d reps k t ttl tid files ds) \<Longrightarrow>
   file_path c \<in> set files \<and> pc_ticket_id c = Some tid \<and> status c = Pending \<and> created_at c = t"
  by (induction cfg d reps k t ttl tid files ds rule: rows_to_create.induct)
    (auto simp: proposed_row_def split: if_splits gen_result.splits)

lemma ai_resolve_state:
  assumes ticket: "get_ticket_by_id s tid = Some t"
    and step: "process_task_two_step cfg s (ticket_task s t) = (Inr res, s1)"
    and run: "api_ticket_ai_resolve cfg s tid = (r, s')"
    and rows: "rows = rows_to_create cfg (disk s) (replies s)
                        (Suc (calls (snd (identify_relevant_files cfg s)))) (now s) (title t) tid
                        (files_analyzed res) (extract_file_directives (title t) (response res))"
  shows "r = Inr (response res, files_analyzed res,
                  zip (map file_path rows) [next_change_id s ..< next_change_id s'])"
    and "get_ticket_by_id s' tid
           = Some (t\<lparr>ai_suggestion := Some (response res),
                     ai_files_analyzed := Some (files_analyzed res),
                     ai_suggestion_status := Some Pending, updated_at := now s\<rparr>)"
    and "map (proposed_changes s') [next_change_id s ..< next_change_id s'] = map Some rows"
    and "next_change_id s' = next_change_id s + length rows"
    and "\<forall>i. i < next_change_id s \<or> next_change_id s' \<le> i \<longrightarrow>
             proposed_changes s' i = proposed_changes s i"
    and "disk s' = disk s" and "writes s' = writes s"
proof -
  let ?s2 = "update_ticket_ai_suggestion s1 tid (response res) (files_analyzed res)"
  let ?ds = "extract_file_directives (title t) (response res)"
  obtain proposed s3 where pd:
    "propose_directives cfg ?s2 (title t) tid (files_analyzed res) ?ds = (proposed, s3)"
    by fastforce
  from ai_resolve_after_two_step [OF ticket step] run pd
  have r: "r = Inr (response res, files_analyzed res, proposed)" and s': "s' = s3"
    by simp_all
  from two_step_success [OF step] obtain rel s0 where
    i: "identify_relevant_files cfg s = (rel, s0)"
    and same: "same_tables s s1"
    and calls: "calls s1 = Suc (calls s0)"
    by blast
  from same have t1: "tickets s1 = tickets s" "now s1 = now s"
    "proposed_changes s1 = proposed_changes s" "next_change_id s1 = next_change_id s"
    "disk s1 = disk s" "writes s1 = writes s" "replies s1 = replies s"
    by (simp_all add: same_tables_def)
  have s2: "tickets ?s2 = (tickets s)(tid \<mapsto> t\<lparr>ai_suggestion := Some (response res),
                     ai_files_analyzed := Some (files_analyzed res),
                     ai_suggestion_status := Some Pending, updated_at := now s\<rparr>)"
    "proposed_changes ?s2 = proposed_changes s" "next_change_id ?s2 = next_change_id s"
    "disk ?s2 = disk s" "writes ?s2 = writes s" "replies ?s2 = replies s" "now ?s2 = now s"
    "calls ?s2 = Suc (calls s0)"
    using ticket t1 calls by (simp_all add: update_ticket_ai_suggestion_def get_ticket_by_id_def)
  note frame = propose_directives_rows [OF pd]
  note exact = propose_directives_exact [OF pd]
  have rows': "rows_to_create cfg (disk ?s2) (replies ?s2) (calls ?s2) (now ?s2) (title t) tid
                 (files_analyzed res) ?ds = rows"
    unfolding rows s2 using i by simp
  show "get_ticket_by_id s' tid
           = Some (t\<lparr>ai_suggestion := Some (response res),
                     ai_files_analyzed := Some (files_analyzed res),
                     ai_suggestion_status := Some Pending, updated_at := now s\<rparr>)"
    using frame s2(1) s' by (simp add: get_ticket_by_id_def)
  show "map (proposed_changes s') [next_change_id s ..< next_change_id s'] = map Some rows"
    using exact [THEN conjunct1] rows' s2 s' by simp
  show "next_change_id s' = next_change_id s + length rows"
    using exact [THEN conjunct2, THEN conjunct1] rows' s2 s' by simp
  have pf: "map fst proposed = map file_path rows"
    using exact [THEN conjunct2, THEN conjunct2] rows' by simp
  have ps: "map snd proposed = [next_change_id s ..< next_change_id s']"
    using frame s2 s' by simp
  have "proposed = zip (map fst proposed) (map snd proposed)"
    by (simp add: zip_map_fst_snd)
  with pf ps r show "r = Inr (response res, files_analyzed res,
                  zip (map file_path rows) [next_change_id s ..< next_change_id s'])"
    by simp
  show "\<forall>i. i < next_change_id s \<or> next_change_id s' \<le> i \<longrightarrow>
             proposed_changes s' i = proposed_changes s i"
    using frame s2 s' by simp
  show "disk s' = disk s" "writes s' = writes s"
    using frame s2 s' by simp_all
qed

lemma two_step_files:
  assumes "process_task_two_step cfg s task = (Inr res, s1)"
  shows "files_analyzed res
           = first_occurrences (filter (readable cfg (disk s))
                                  (selected_paths (fst (identify_relevant_files cfg s))))"
    and "replies s (calls (snd (identify_relevant_files cfg s))) = GenOk (response res)"
proof -
  from two_step_success [OF assms] obtain rel s0 where
    i: "identify_relevant_files cfg s = (rel, s0)"
    and fa: "files_analyzed res = map fst (fst (read_relevant cfg (disk s) rel [] 0))"
    and rp: "replies s (calls s0) = GenOk (response res)"
    by blast
  show "files_analyzed res
           = first_occurrences (filter (readable cfg (disk s))
                                  (selected_paths (fst (identify_relevant_files cfg s))))"
    unfolding fa using i read_relevant_order [of "[]" cfg "disk s" rel 0] by simp
  show "replies s (calls (snd (identify_relevant_files cfg s))) = GenOk (response res)"
    using i rp by simp
qed

lemma set_first_occurrences [simp]: "set (first_occurrences xs) = set xs"
  by (simp add: first_occurrences_def)

lemma files1: "get_all_files_recursive cfg1 fs0 = [(''app.py'', ''app.py'', 8)]"
  by (simp add: get_all_files_recursive_def cfg1_def fs0_def path_defs SKIP_NAMES_def
      sublist_Cons_right Let_def)

lemma bracket1: "first_bracketed (strip (''Relevant: '' @ selection_json)) = Some selection_json"
  by (simp add: first_bracketed_def strip_def is_space_def selection_json_def)

lemma json1: "json_loads cfg1 selection_json = Some [JStr ''app.py'', JStr ''ghost.py'']"
  by (simp add: cfg1_def)

lemma read_app1:
  "read_file cfg1 fs0 ''app.py''
     = Inr \<lparr>fd_path = ''app.py'', fd_content = ''print(1)'', fd_size = 8, fd_extension = ''.py''\<rparr>"
  by (simp add: cfg1_def fs0_def path_defs read_file_def read_text_def)

lemma read_ghost1: "read_file cfg1 fs0 ''ghost.py'' = Inl ''File access denied - safety check failed''"
  by (simp add: cfg1_def fs0_def path_defs read_file_def read_text_def)

lemma readable1: "readable cfg1 fs0 ''app.py''" "\<not> readable cfg1 fs0 ''ghost.py''"
  by (simp_all add: readable_def read_app1 read_ghost1)

lemma identify_sample:
  assumes "disk s = fs0" and "calls s = 0"
    and "replies s 0 = GenOk (''Relevant: '' @ selection_json)"
  shows "identify_relevant_files cfg1 s
           = ([JStr ''app.py'', JStr ''ghost.py''], s\<lparr>calls := Suc 0\<rparr>)"
proof -
  have "get_all_files_recursive cfg1 (disk s) \<noteq> []" using assms(1) by (simp add: files1)
  moreover have "replies s (calls s) = GenOk (''Relevant: '' @ selection_json)"
    using assms by simp
  ultimately show ?thesis
    using identify_selected [OF _ _ bracket1 json1, of s] assms(2) by simp
qed

lemma relevant_sample:
  "read_relevant cfg1 fs0 [JStr ''app.py'', JStr ''ghost.py''] [] 0 = ([(''app.py'', ''print(1)'')], 8)"
  by (simp add: read_app1 read_ghost1)

lemma ticket_world1:
  "get_ticket_by_id world1 1 = Some ticket1" "get_ticket_by_id world1_down 1 = Some ticket1"
  "get_ticket_by_id world0 1 = Some ticket1"
  by (simp_all add: get_ticket_by_id_def world1_def world1_down_def world0_def)

lemma replies1:
  "replies world1 0 = GenOk (''Relevant: '' @ selection_json)"
  "replies world1 (Suc 0) = GenOk reply_dup"
  "replies world1 (Suc (Suc 0)) = GenOk ''print(2)''"
  "replies world1 (Suc (Suc (Suc 0))) = GenOk ''print(3)''"
  by (simp_all add: world1_def)

lemma rows_sample:
  "rows_to_create cfg1 fs0 (replies world1) (Suc (Suc 0)) 7 ''Crash'' (Suc 0) [''app.py'']
     [(''app.py'', ''first''), (''ghost.py'', ''nothing''), (''app.py'', ''second'')]
   = [change_first, change_second]"
  by (simp add: readable1 proposed_row_def read_app1 replies1 change_first_def change_second_def)

lemma upt_1_3: "[Suc 0 ..< 3] = [Suc 0, 2]"
  by (simp add: upt_rec numeral_3_eq_3 numeral_2_eq_2)

lemma two_step_world1:
  "\<exists>res s1. process_task_two_step cfg1 world1 task = (Inr res, s1)
      \<and> response res = reply_dup \<and> files_analyzed res = [''app.py'']"
proof -
  have i: "identify_relevant_files cfg1 world1
             = ([JStr ''app.py'', JStr ''ghost.py''], world1\<lparr>calls := Suc 0\<rparr>)"
    by (rule identify_sample) (simp_all add: world1_def)
  have "\<exists>res s1. process_task_two_step cfg1 world1 task = (Inr res, s1) \<and> response res = reply_dup"
    by (rule two_step_success_intro [OF i]) (simp_all add: world1_def read_app1 read_ghost1)
  then obtain res s1 where step: "process_task_two_step cfg1 world1 task = (Inr res, s1)"
    and resp: "response res = reply_dup" by blast
  from two_step_success [OF step] i
  have "files_analyzed res = map fst (fst (read_relevant cfg1 (disk world1)
                                 [JStr ''app.py'', JStr ''ghost.py''] [] 0))"
    by simp
  also have "disk world1 = fs0" by (simp add: world1_def)
  finally have "files_analyzed res = [''app.py'']" by (simp add: read_app1 read_ghost1)
  with step resp show ?thesis by blast
qed

lemma resolve_world1:
  "fst (api_ticket_ai_resolve cfg1 world1 1)
     = Inr (reply_dup, [''app.py''], [(''app.py'', 1), (''app.py'', 2)])"
  "get_ticket_by_id (snd (api_ticket_ai_resolve cfg1 world1 1)) 1
     = Some (ticket1\<lparr>ai_suggestion := Some reply_dup, ai_files_analyzed := Some [''app.py''],
                     ai_suggestion_status := Some Pending, updated_at := 7\<rparr>)"
  "proposed_changes (snd (api_ticket_ai_resolve cfg1 world1 1)) 1 = Some change_first"
  "proposed_changes (snd (api_ticket_ai_resolve cfg1 world1 1)) 2 = Some change_second"
  "next_change_id (snd (api_ticket_ai_resolve cfg1 world1 1)) = 3"
proof -
  from two_step_world1 [of "ticket_task world1 ticket1"] obtain res s1 where
    step: "process_task_two_step cfg1 world1 (ticket_task world1 ticket1) = (Inr res, s1)"
    and res: "response res = reply_dup" "files_analyzed res = [''app.py'']"
    by blast
  obtain r s' where run: "api_ticket_ai_resolve cfg1 world1 1 = (r, s')" by fastforce
  have i: "identify_relevant_files cfg1 world1
             = ([JStr ''app.py'', JStr ''ghost.py''], world1\<lparr>calls := Suc 0\<rparr>)"
    by (rule identify_sample) (simp_all add: world1_def)
  have w: "disk world1 = fs0" "now world1 = 7" "next_change_id world1 = Suc 0"
    by (simp_all add: world1_def)
  have t: "title ticket1 = ''Crash''" by (simp add: ticket1_def)
  define rows where "rows = rows_to_create cfg1 (disk world1) (replies world1)
                        (Suc (calls (snd (identify_relevant_files cfg1 world1)))) (now world1)
                        (title ticket1) 1 (files_analyzed res)
                        (extract_file_directives (title ticket1) (response res))"
  have rows: "rows = [change_first, change_second]"
    unfolding rows_def
    by (simp add: i w t res extract_reply_dup readable1 proposed_row_def read_app1 replies1
        change_first_def change_second_def)
  note st = ai_resolve_state [OF ticket_world1(1) step run rows_def]
  from st(4) rows w have n: "next_change_id s' = 3" by simp
  from st(3) rows w n have m: "map (proposed_changes s') [Suc 0, 2] = [Some change_first, Some change_second]"
    by (simp add: upt_1_3)
  from st(1) rows w n res run
  show "fst (api_ticket_ai_resolve cfg1 world1 1)
     = Inr (reply_dup, [''app.py''], [(''app.py'', 1), (''app.py'', 2)])"
    by (simp add: upt_1_3 change_first_def change_second_def)
  from st(2) res w run
  show "get_ticket_by_id (snd (api_ticket_ai_resolve cfg1 world1 1)) 1
     = Some (ticket1\<lparr>ai_suggestion := Some reply_dup, ai_files_analyzed := Some [''app.py''],
                     ai_suggestion_status := Some Pending, updated_at := 7\<rparr>)"
    by simp
  from m run
  show "proposed_changes (snd (api_ticket_ai_resolve cfg1 world1 1)) 1 = Some change_first"
    "proposed_changes (snd (api_ticket_ai_resolve cfg1 world1 1)) 2 = Some change_second"
    by simp_all
  from n run show "next_change_id (snd (api_ticket_ai_resolve cfg1 world1 1)) = 3" by simp
qed

lemma propose_same_path_twice:
  assumes "p \<in> set files" and "readable cfg (disk s) p"
    and "replies s (calls s) = GenOk a" and "replies s (Suc (calls s)) = GenOk b"
  shows "propose_directives cfg s t tid files [(p, x1), (p, x2)]
            = ([(p, next_change_id s), (p, Suc (next_change_id s))],
               s\<lparr>calls := Suc (Suc (calls s)),
                 proposed_changes := (proposed_changes s)
                    (next_change_id s \<mapsto> proposed_row cfg (disk s) (now s) t tid p x1 a,
                     Suc (next_change_id s) \<mapsto> proposed_row cfg (disk s) (now s) t tid p x2 b),
                 next_change_id := Suc (Suc (next_change_id s))\<rparr>)"
proof -
  define s1 where "s1 = s\<lparr>calls := Suc (calls s),
          proposed_changes := (proposed_changes s)
             (next_change_id s \<mapsto> proposed_row cfg (disk s) (now s) t tid p x1 a),
          next_change_id := Suc (next_change_id s)\<rparr>"
  have one: "propose_file_change cfg s p (t @ '': '' @ x1) (Some tid) = (Inr (next_change_id s), s1)"
    unfolding s1_def by (rule propose_ok [OF assms(2,3)])
  have "readable cfg (disk s1) p" "replies s1 (calls s1) = GenOk b"
    using assms by (simp_all add: s1_def)
  from propose_ok [OF this, of t x2 tid]
  have two: "propose_file_change cfg s1 p (t @ '': '' @ x2) (Some tid)
               = (Inr (Suc (next_change_id s)),
                  s\<lparr>calls := Suc (Suc (calls s)),
                    proposed_changes := (proposed_changes s)
                      (next_change_id s \<mapsto> proposed_row cfg (disk s) (now s) t tid p x1 a,
                       Suc (next_change_id s) \<mapsto> proposed_row cfg (disk s) (now s) t tid p x2 b),
                    next_change_id := Suc (Suc (next_change_id s))\<rparr>)"
    by (simp add: s1_def)
  from assms(1) one two show ?thesis by simp
qed

text \<open>
  C6. When the selection of files gives nothing, ai-resolve answers with the error
  \<open>No relevant files found for this task\<close>; when the selection gives files of which at least one
  can be read and the generation call then fails with the message \<open>e\<close>, it answers with the error
  \<open>e\<close>. In both cases the tickets (so \<open>ai_suggestion\<close>, \<open>ai_suggestion_status\<close> and
  \<open>ai_files_analyzed\<close> of the ticket), the proposed changes and the files are those of before: no
  row is created. The message of the failure is taken to be non-empty, as the messages of the
  errors of the generation client are: the route tests the error text for truth.
\<close>

theorem ai_resolve_failure_leaves_ticket:
  assumes ticket: "get_ticket_by_id s tid = Some t"
  shows "(fst (identify_relevant_files cfg s) = [] \<longrightarrow>
            fst (api_ticket_ai_resolve cfg s tid) = Inl ''No relevant files found for this task''
            \<and> same_tables s (snd (api_ticket_ai_resolve cfg s tid)))
       \<and> (fst (identify_relevant_files cfg s) \<noteq> []
            \<and> fst (read_relevant cfg (disk s) (fst (identify_relevant_files cfg s)) [] 0) \<noteq> []
            \<and> replies s (calls (snd (identify_relevant_files cfg s))) = GenFail e \<and> e \<noteq> []
          \<longrightarrow> fst (api_ticket_ai_resolve cfg s tid) = Inl e
            \<and> same_tables s (snd (api_ticket_ai_resolve cfg s tid)))"
proof (intro conjI impI)
  let ?task = "ticket_task s t"
  obtain r s1 where p: "process_task_two_step cfg s ?task = (r, s1)" by fastforce
  {
    assume "fst (identify_relevant_files cfg s) = []"
    from two_step_no_files [OF this, of ?task] p
    have p': "process_task_two_step cfg s ?task = (Inl ''No relevant files found for this task'', s1)"
      by simp
    from ai_resolve_error [OF ticket p'] two_step_error [OF p']
    show "fst (api_ticket_ai_resolve cfg s tid) = Inl ''No relevant files found for this task''"
      and "same_tables s (snd (api_ticket_ai_resolve cfg s tid))"
      by simp_all
  }
  {
    assume h: "fst (identify_relevant_files cfg s) \<noteq> []
            \<and> fst (read_relevant cfg (disk s) (fst (identify_relevant_files cfg s)) [] 0) \<noteq> []
            \<and> replies s (calls (snd (identify_relevant_files cfg s))) = GenFail e \<and> e \<noteq> []"
    obtain rel s0 where i: "identify_relevant_files cfg s = (rel, s0)" by fastforce
    from identify_same [OF i] have d: "disk s0 = disk s" "replies s0 = replies s"
      by (simp_all add: same_tables_def)
    from two_step_generation_failed [OF i, of e ?task] h i d p
    have p': "process_task_two_step cfg s ?task = (Inl e, s1)"
      by simp
    from h have "e \<noteq> []" by simp
    from ai_resolve_error [OF ticket p' this] two_step_error [OF p']
    show "fst (api_ticket_ai_resolve cfg s tid) = Inl e"
      and "same_tables s (snd (api_ticket_ai_resolve cfg s tid))"
      by simp_all
  }
qed

theorem ai_resolve_failure_leaves_ticket_witness:
  "fst (api_ticket_ai_resolve cfg0 world0 1) = Inl ''No relevant files found for this task''
   \<and> same_tables world0 (snd (api_ticket_ai_resolve cfg0 world0 1))
   \<and> fst (api_ticket_ai_resolve cfg1 world1_down 1) = Inl ''Connection error.''
   \<and> same_tables world1_down (snd (api_ticket_ai_resolve cfg1 world1_down 1))"
proof -
  have i0: "fst (identify_relevant_files cfg0 world0) = []"
    by (rule identify_generation_failed [of world0 "''Connection error.''"]) (simp add: world0_def)
  have i1: "identify_relevant_files cfg1 world1_down
             = ([JStr ''app.py'', JStr ''ghost.py''], world1_down\<lparr>calls := Suc 0\<rparr>)"
    by (rule identify_sample) (simp_all add: world1_down_def world1_def)
  have d: "disk world1_down = fs0" by (simp add: world1_down_def world1_def)
  have g: "replies world1_down (Suc 0) = GenFail ''Connection error.''"
    by (simp add: world1_down_def)
  from ai_resolve_failure_leaves_ticket [OF ticket_world1(3), of cfg0 "[]"] i0
    ai_resolve_failure_leaves_ticket [OF ticket_world1(2), of cfg1 "''Connection error.''"]
    i1 d g
  show ?thesis by (simp add: read_app1 read_ghost1)
qed

text \<open>
  The route tests \<open>result.get('error')\<close> for truth. Were a failure to carry the empty message,
  the route would go on, store the empty suggestion and answer with success.
\<close>

lemma ai_resolve_empty_error_text:
  assumes "get_ticket_by_id s tid = Some t"
    and "process_task_two_step cfg s (ticket_task s t) = (Inl [], s1)"
  shows "fst (api_ticket_ai_resolve cfg s tid) = Inr ([], [], [])"
    and "get_ticket_by_id (snd (api_ticket_ai_resolve cfg s tid)) tid
           = Some (t\<lparr>ai_suggestion := Some [], ai_files_analyzed := Some [],
                     ai_suggestion_status := Some Pending, updated_at := now s1\<rparr>)"
proof -
  from two_step_error [OF assms(2)] have "tickets s1 = tickets s" by (simp add: same_tables_def)
  with assms show "fst (api_ticket_ai_resolve cfg s tid) = Inr ([], [], [])"
    and "get_ticket_by_id (snd (api_ticket_ai_resolve cfg s tid)) tid
           = Some (t\<lparr>ai_suggestion := Some [], ai_files_analyzed := Some [],
                     ai_suggestion_status := Some Pending, updated_at := now s1\<rparr>)"
    by (simp_all add: api_ticket_ai_resolve_def store_and_propose_def extract_file_directives_def
        sublist_Nil_right FILES_TO_MODIFY_def update_ticket_ai_suggestion_def get_ticket_by_id_def)
qed

text \<open>
  C9. After a successful ai-resolve, one in which \<open>process_task_two_step\<close> returned a
  result, the ticket holds the reply of the generation service as \<open>ai_suggestion\<close>, the status
  \<open>pending\<close>, and as \<open>ai_files_analyzed\<close> the selected paths that could be read, each once,
  in the order of their first mention: a selected path that \<open>read_file\<close> refuses is not among
  them. The rows created are exactly those of \<open>rows_to_create\<close>, numbered from the next free id
  on: one pending row of this ticket for every directive whose path is among the files analysed
  and for which the generation service gave a content; a directive naming another path gives no
  row. All other rows and the files are untouched, and the answer lists the reply, the files
  analysed and the rows created.
\<close>

theorem ai_resolve_success:
  assumes ticket: "get_ticket_by_id s tid = Some t"
    and step: "process_task_two_step cfg s (ticket_task s t) = (Inr res, s1)"
    and run: "api_ticket_ai_resolve cfg s tid = (r, s')"
    and rows: "rows = rows_to_create cfg (disk s) (replies s)
                        (Suc (calls (snd (identify_relevant_files cfg s)))) (now s) (title t) tid
                        (files_analyzed res) (extract_file_directives (title t) (response res))"
  shows "r = Inr (response res, files_analyzed res,
                  zip (map file_path rows) [next_change_id s ..< next_change_id s'])
       \<and> get_ticket_by_id s' tid
           = Some (t\<lparr>ai_suggestion := Some (response res),
                     ai_files_analyzed := Some (files_analyzed res),
                     ai_suggestion_status := Some Pending, updated_at := now s\<rparr>)
       \<and> replies s (calls (snd (identify_relevant_files cfg s))) = GenOk (response res)
       \<and> files_analyzed res
           = first_occurrences (filter (readable cfg (disk s))
                                  (selected_paths (fst (identify_relevant_files cfg s))))
       \<and> set (files_analyzed res)
           = {p \<in> set (selected_paths (fst (identify_relevant_files cfg s))). readable cfg (disk s) p}
       \<and> map (proposed_changes s') [next_change_id s ..< next_change_id s'] = map Some rows
       \<and> next_change_id s' = next_change_id s + length rows
       \<and> (\<forall>c\<in>set rows. file_path c \<in> set (files_analyzed res) \<and> pc_ticket_id c = Some tid
                          \<and> status c = Pending)
       \<and> (\<forall>i. i < next_change_id s \<or> next_change_id s' \<le> i \<longrightarrow>
             proposed_changes s' i = proposed_changes s i)
       \<and> disk s' = disk s \<and> writes s' = writes s"
proof -
  note st = ai_resolve_state [OF ticket step run rows]
  note fl = two_step_files [OF step]
  have keys: "set (files_analyzed res)
           = {p \<in> set (selected_paths (fst (identify_relevant_files cfg s))). readable cfg (disk s) p}"
    unfolding fl(1) by auto
  have each: "\<forall>c\<in>set rows. file_path c \<in> set (files_analyzed res) \<and> pc_ticket_id c = Some tid
                          \<and> status c = Pending"
    unfolding rows using rows_to_create_rows by blast
  from st fl keys each show ?thesis by blast
qed

theorem ai_resolve_success_witness:
  "fst (api_ticket_ai_resolve cfg1 world1 1)
     = Inr (reply_dup, [''app.py''], [(''app.py'', 1), (''app.py'', 2)])
   \<and> get_ticket_by_id (snd (api_ticket_ai_resolve cfg1 world1 1)) 1
     = Some (ticket1\<lparr>ai_suggestion := Some reply_dup, ai_files_analyzed := Some [''app.py''],
                     ai_suggestion_status := Some Pending, updated_at := 7\<rparr>)
   \<and> map (proposed_changes (snd (api_ticket_ai_resolve cfg1 world1 1))) [1, 2]
     = [Some change_first, Some change_second]
   \<and> next_change_id (snd (api_ticket_ai_resolve cfg1 world1 1)) = 3
   \<and> disk (snd (api_ticket_ai_resolve cfg1 world1 1)) = fs0"
proof -
  from two_step_world1 [of "ticket_task world1 ticket1"] obtain res s1 where
    step: "process_task_two_step cfg1 world1 (ticket_task world1 ticket1) = (Inr res, s1)"
    and res: "response res = reply_dup" "files_analyzed res = [''app.py'']"
    by blast
  obtain r s' where run: "api_ticket_ai_resolve cfg1 world1 1 = (r, s')" by fastforce
  have i: "identify_relevant_files cfg1 world1
             = ([JStr ''app.py'', JStr ''ghost.py''], world1\<lparr>calls := Suc 0\<rparr>)"
    by (rule identify_sample) (simp_all add: world1_def)
  have w: "disk world1 = fs0" "now world1 = 7" "next_change_id world1 = Suc 0"
    by (simp_all add: world1_def)
  have t: "title ticket1 = ''Crash''" by (simp add: ticket1_def)
  define rows where "rows = rows_to_create cfg1 (disk world1) (replies world1)
                        (Suc (calls (snd (identify_relevant_files cfg1 world1)))) (now world1)
                        (title ticket1) 1 (files_analyzed res)
                        (extract_file_directives (title ticket1) (response res))"
  have rows: "rows = [change_first, change_second]"
    unfolding rows_def
    by (simp add: i w t res extract_reply_dup readable1 proposed_row_def read_app1 replies1
        change_first_def change_second_def)
  from ai_resolve_success [OF ticket_world1(1) step run rows_def]
  have "r = Inr (response res, files_analyzed res,
                  zip (map file_path rows) [next_change_id world1 ..< next_change_id s'])"
    and "get_ticket_by_id s' 1
           = Some (ticket1\<lparr>ai_suggestion := Some (response res),
                     ai_files_analyzed := Some (files_analyzed res),
                     ai_suggestion_status := Some Pending, updated_at := now world1\<rparr>)"
    and "map (proposed_changes s') [next_change_id world1 ..< next_change_id s'] = map Some rows"
    and "next_change_id s' = next_change_id world1 + length rows"
    and "disk s' = disk world1"
    by blast+
  with rows w res run show ?thesis
    by (simp add: upt_1_3 change_first_def change_second_def numeral_2_eq_2)
qed

text \<open>
  In the second installation the selection names \<open>app.py\<close> and \<open>ghost.py\<close>; ai-resolve
  succeeds, and the ticket records \<open>app.py\<close> alone: the files analysed are not the files selected.
\<close>

theorem analysed_files_are_the_readable_selected_files:
  "selected_paths (fst (identify_relevant_files cfg1 world1)) = [''app.py'', ''ghost.py'']
   \<and> fst (api_ticket_ai_resolve cfg1 world1 1)
       = Inr (reply_dup, [''app.py''], [(''app.py'', 1), (''app.py'', 2)])
   \<and> map_option ai_files_analyzed (get_ticket_by_id (snd (api_ticket_ai_resolve cfg1 world1 1)) 1)
       = Some (Some [''app.py''])
   \<and> set [''app.py''] \<noteq> set (selected_paths (fst (identify_relevant_files cfg1 world1)))"
proof -
  have i: "identify_relevant_files cfg1 world1
             = ([JStr ''app.py'', JStr ''ghost.py''], world1\<lparr>calls := Suc 0\<rparr>)"
    by (rule identify_sample) (simp_all add: world1_def)
  from i resolve_world1(1,2) show ?thesis
    by (simp add: selected_paths_def)
qed

text \<open>
  C8. Every well-formed line of the block gives its own directive, in the order of the reply: a
  path named twice gives two directives, the earlier instruction is kept beside the later one.
  Two directives for the same analysed path give two proposed changes, one per instruction, when
  the generation service answers both requests.
\<close>

theorem extract_keeps_every_directive:
  assumes ds: "\<forall>(p, x)\<in>set ds. CHR '':'' \<notin> set p \<and> CHR 0x0A \<notin> set p \<and> CHR 0x0A \<notin> set x"
    and first: "CHR 0x0A \<notin> set first"
      "\<not> (prefix ''- '' (strip first) \<and> CHR '':'' \<in> set (strip first))"
    and once: "\<not> sublist FILES_TO_MODIFY
                 (join_str [CHR 0x0A] (first # map (\<lambda>(p, x). ''- '' @ p @ '': '' @ x) ds))"
  shows "extract_file_directives t
           (pre @ FILES_TO_MODIFY
              @ join_str [CHR 0x0A] (first # map (\<lambda>(p, x). ''- '' @ p @ '': '' @ x) ds))
         = map (\<lambda>(p, x). (strip p, strip x)) ds
       \<and> (q \<in> set files \<and> readable cfg (disk s) q
            \<and> replies s (calls s) = GenOk a \<and> replies s (Suc (calls s)) = GenOk b \<longrightarrow>
          propose_directives cfg s t tid files [(q, x1), (q, x2)]
            = ([(q, next_change_id s), (q, Suc (next_change_id s))],
               s\<lparr>calls := Suc (Suc (calls s)),
                 proposed_changes := (proposed_changes s)
                    (next_change_id s \<mapsto> proposed_row cfg (disk s) (now s) t tid q x1 a,
                     Suc (next_change_id s) \<mapsto> proposed_row cfg (disk s) (now s) t tid q x2 b),
                 next_change_id := Suc (Suc (next_change_id s))\<rparr>))"
proof -
  let ?dl = "\<lambda>(p, x). ''- '' @ p @ '': '' @ x"
  have nl: "\<forall>l\<in>set (first # map ?dl ds). CHR 0x0A \<notin> set l"
    using ds first(1) by auto
  have "split_char CHR 0x0A (join_str [CHR 0x0A] (first # map ?dl ds)) = first # map ?dl ds"
    by (rule split_char_join) (use nl in simp_all)
  with extract_lines [OF once, of t pre]
  have "extract_file_directives t (pre @ FILES_TO_MODIFY @ join_str [CHR 0x0A] (first # map ?dl ds))
        = List.map_filter (directive_of_line t) (first # map ?dl ds)"
    by simp
  also have "\<dots> = List.map_filter (directive_of_line t) (map ?dl ds)"
    using directive_of_skipped_line [OF first(2), of t] by (simp add: List.map_filter_simps)
  also have "\<dots> = map (\<lambda>(p, x). (strip p, strip x)) ds"
    using ds
  proof (induction ds)
    case Nil
    then show ?case by (simp add: List.map_filter_simps)
  next
    case (Cons a ds)
    obtain p x where a: "a = (p, x)" by (cases a)
    with Cons.prems have "CHR '':'' \<notin> set p" by simp
    from directive_of_well_formed_line [OF this, of t x] Cons a show ?case
      by (simp add: List.map_filter_simps)
  qed
  finally have ex: "extract_file_directives t
           (pre @ FILES_TO_MODIFY @ join_str [CHR 0x0A] (first # map ?dl ds))
         = map (\<lambda>(p, x). (strip p, strip x)) ds" .
  from ex propose_same_path_twice [of q files cfg s a b t tid x1 x2] show ?thesis by blast
qed

theorem extract_keeps_every_directive_witness:
  "extract_file_directives ''Crash''
     (''FILES_TO_MODIFY:'' @ [CHR 0x0A] @ ''- app.py: first'' @ [CHR 0x0A] @ ''- app.py: second'')
     = [(''app.py'', ''first''), (''app.py'', ''second'')]
   \<and> propose_directives cfg1 (world1\<lparr>calls := 2\<rparr>) ''Crash'' 1 [''app.py'']
        [(''app.py'', ''first''), (''app.py'', ''second'')]
     = ([(''app.py'', 1), (''app.py'', 2)],
        world1\<lparr>calls := 4, proposed_changes := [1 \<mapsto> change_first, 2 \<mapsto> change_second],
               next_change_id := 3\<rparr>)"
proof -
  let ?ds = "[(''app.py'', ''first''), (''app.py'', ''second'')]"
  have ds: "\<forall>(p, x)\<in>set ?ds. CHR '':'' \<notin> set p \<and> CHR 0x0A \<notin> set p \<and> CHR 0x0A \<notin> set x"
    by simp
  have first: "CHR 0x0A \<notin> set []"
    "\<not> (prefix ''- '' (strip []) \<and> CHR '':'' \<in> set (strip []))"
    by (simp_all add: strip_plain)
  have once: "\<not> sublist FILES_TO_MODIFY
                 (join_str [CHR 0x0A] ([] # map (\<lambda>(p, x). ''- '' @ p @ '': '' @ x) ?ds))"
    by (simp add: FILES_TO_MODIFY_def sublist_Cons_right)
  have w: "disk (world1\<lparr>calls := 2\<rparr>) = fs0" "now (world1\<lparr>calls := 2\<rparr>) = 7"
    "next_change_id (world1\<lparr>calls := 2\<rparr>) = Suc 0"
    "proposed_changes (world1\<lparr>calls := 2\<rparr>) = Map.empty"
    "replies (world1\<lparr>calls := 2\<rparr>) (calls (world1\<lparr>calls := 2\<rparr>)) = GenOk ''print(2)''"
    "replies (world1\<lparr>calls := 2\<rparr>) (Suc (calls (world1\<lparr>calls := 2\<rparr>))) = GenOk ''print(3)''"
    by (simp_all add: world1_def)
  have rows: "proposed_row cfg1 fs0 7 ''Crash'' 1 ''app.py'' ''first'' ''print(2)'' = change_first"
    "proposed_row cfg1 fs0 7 ''Crash'' 1 ''app.py'' ''second'' ''print(3)'' = change_second"
    by (simp_all add: proposed_row_def read_app1 change_first_def change_second_def)
  have eq: "world1\<lparr>calls := 2\<rparr>\<lparr>calls := Suc (Suc (calls (world1\<lparr>calls := 2\<rparr>))),
                 proposed_changes := (Map.empty :: nat \<rightharpoonup> proposed_change)
                    (Suc 0 \<mapsto> change_first, Suc (Suc 0) \<mapsto> change_second),
                 next_change_id := Suc (Suc (Suc 0))\<rparr>
            = world1\<lparr>calls := 4, proposed_changes := [1 \<mapsto> change_first, 2 \<mapsto> change_second],
               next_change_id := 3\<rparr>"
    by (simp add: world1_def numeral_2_eq_2 numeral_3_eq_3)
  from extract_keeps_every_directive [OF ds first once,
      of "''Crash''" "[]" "''app.py''" "[''app.py'']" cfg1 "world1\<lparr>calls := 2\<rparr>"
         "''print(2)''" "''print(3)''" 1 "''first''" "''second''"]
  have "extract_file_directives ''Crash''
           ([] @ FILES_TO_MODIFY
              @ join_str [CHR 0x0A] ([] # map (\<lambda>(p, x). ''- '' @ p @ '': '' @ x) ?ds))
         = map (\<lambda>(p, x). (strip p, strip x)) ?ds"
    and "propose_directives cfg1 (world1\<lparr>calls := 2\<rparr>) ''Crash'' 1 [''app.py'']
            [(''app.py'', ''first''), (''app.py'', ''second'')]
            = ([(''app.py'', next_change_id (world1\<lparr>calls := 2\<rparr>)),
                (''app.py'', Suc (next_change_id (world1\<lparr>calls := 2\<rparr>)))],
               world1\<lparr>calls := 2\<rparr>\<lparr>calls := Suc (Suc (calls (world1\<lparr>calls := 2\<rparr>))),
                 proposed_changes := (proposed_changes (world1\<lparr>calls := 2\<rparr>))
                    (next_change_id (world1\<lparr>calls := 2\<rparr>) \<mapsto>
                       proposed_row cfg1 (disk (world1\<lparr>calls := 2\<rparr>)) (now (world1\<lparr>calls := 2\<rparr>))
                         ''Crash'' 1 ''app.py'' ''first'' ''print(2)'',
                     Suc (next_change_id (world1\<lparr>calls := 2\<rparr>)) \<mapsto>
                       proposed_row cfg1 (disk (world1\<lparr>calls := 2\<rparr>)) (now (world1\<lparr>calls := 2\<rparr>))
                         ''Crash'' 1 ''app.py'' ''second'' ''print(3)''),
                 next_change_id := Suc (Suc (next_change_id (world1\<lparr>calls := 2\<rparr>)))\<rparr>)"
    using w(1,5,6) readable1(1) by simp_all
  then show ?thesis
    unfolding w(1-4) rows eq
    by (simp add: strip_plain FILES_TO_MODIFY_def numeral_2_eq_2)
qed

text \<open>
  The reply \<open>reply_dup\<close> names \<open>app.py\<close> twice: both instructions are extracted, and ai-resolve
  creates a row for each of them; the first instruction is not replaced by the second.
\<close>

theorem later_directive_does_not_replace_earlier:
  "extract_file_directives ''Crash'' reply_dup
     = [(''app.py'', ''first''), (''ghost.py'', ''nothing''), (''app.py'', ''second'')]
   \<and> proposed_changes (snd (api_ticket_ai_resolve cfg1 world1 1)) 1 = Some change_first
   \<and> proposed_changes (snd (api_ticket_ai_resolve cfg1 world1 1)) 2 = Some change_second
   \<and> file_path change_first = file_path change_second
   \<and> change_description change_first = ''Crash: first''
   \<and> change_description change_second = ''Crash: second''"
  using extract_reply_dup resolve_world1(3,4) by (simp add: change_first_def change_second_def)

end
